theory Spec2Isabelle
  imports Main "HOL-Library.Sublist" "HOL-Library.Char_ord" "HOL-Library.List_Lexorder"
    "HOL-Library.Multiset" "HOL-Library.Word"
begin

section \<open>Go library functions used by db.go\<close>

text \<open>
  A Go string is a sequence of bytes; it is modelled as \<open>string\<close> (a list of 8-bit
  characters). Indices are Go \<open>int\<close>s, modelled as \<open>int\<close>: every index the code computes
  is bounded by the length of a string held in memory, so no overflow can occur.
\<close>

subsection \<open>strings.Index\<close>

text \<open>
  \<open>strings.Index(s, substr)\<close>: the byte index of the first occurrence of \<open>substr\<close> in
  \<open>s\<close>, or \<open>-1\<close> when there is none. The empty string occurs at index 0 of every string.
\<close>

primrec Index :: "string \<Rightarrow> string \<Rightarrow> int" where
  "Index [] substr = (if substr = [] then 0 else - 1)"
| "Index (c # s) substr =
     (if prefix substr (c # s) then 0
      else (let i = Index s substr in if i = - 1 then - 1 else i + 1))"

subsection \<open>strings.TrimSpace\<close>

text \<open>
  \<open>strings.TrimSpace\<close> removes all leading and trailing white space as defined by Unicode
  (\<open>unicode.IsSpace\<close>): the code points U+0009 to U+000D, U+0020, U+0085, U+00A0, U+1680,
  U+2000 to U+200A, U+2028, U+2029, U+202F, U+205F and U+3000. \<open>spaces\<close> lists their UTF-8
  encodings. A byte sequence that is not one of these encodings decodes to a code point
  that is not white space (or to the replacement character), so trimming stops there.
\<close>

definition spaces :: "string list" where
  "spaces =
    [[CHR 0x09], [CHR 0x0A], [CHR 0x0B], [CHR 0x0C], [CHR 0x0D], [CHR 0x20],
     [CHR 0xC2, CHR 0x85], [CHR 0xC2, CHR 0xA0],
     [CHR 0xE1, CHR 0x9A, CHR 0x80],
     [CHR 0xE2, CHR 0x80, CHR 0x80], [CHR 0xE2, CHR 0x80, CHR 0x81],
     [CHR 0xE2, CHR 0x80, CHR 0x82], [CHR 0xE2, CHR 0x80, CHR 0x83],
     [CHR 0xE2, CHR 0x80, CHR 0x84], [CHR 0xE2, CHR 0x80, CHR 0x85],
     [CHR 0xE2, CHR 0x80, CHR 0x86], [CHR 0xE2, CHR 0x80, CHR 0x87],
     [CHR 0xE2, CHR 0x80, CHR 0x88], [CHR 0xE2, CHR 0x80, CHR 0x89],
     [CHR 0xE2, CHR 0x80, CHR 0x8A],
     [CHR 0xE2, CHR 0x80, CHR 0xA8], [CHR 0xE2, CHR 0x80, CHR 0xA9],
     [CHR 0xE2, CHR 0x80, CHR 0xAF],
     [CHR 0xE2, CHR 0x81, CHR 0x9F],
     [CHR 0xE3, CHR 0x80, CHR 0x80]]"

text \<open>The number of bytes of the white-space code point a string starts with (ends with);
  0 when it starts (ends) with none.\<close>

definition leadingSpace :: "string \<Rightarrow> nat" where
  "leadingSpace s = (case find (\<lambda>r. prefix r s) spaces of None \<Rightarrow> 0 | Some r \<Rightarrow> length r)"

definition trailingSpace :: "string \<Rightarrow> nat" where
  "trailingSpace s = (case find (\<lambda>r. suffix r s) spaces of None \<Rightarrow> 0 | Some r \<Rightarrow> length r)"

lemma spaces_nonempty: "r \<in> set spaces \<Longrightarrow> r \<noteq> []"
  by (auto simp: spaces_def)

lemma leadingSpace_le: "leadingSpace s \<le> length s"
  by (auto simp: leadingSpace_def prefix_length_le split: option.splits dest!: find_Some_iff[THEN iffD1])

lemma trailingSpace_le: "trailingSpace s \<le> length s"
  by (auto simp: trailingSpace_def suffix_length_le split: option.splits dest!: find_Some_iff[THEN iffD1])

lemma leadingSpace_pos: "0 < leadingSpace s \<Longrightarrow> 0 < length s"
  using leadingSpace_le [of s] by auto

lemma trailingSpace_pos: "0 < trailingSpace s \<Longrightarrow> 0 < length s"
  using trailingSpace_le [of s] by auto

function TrimLeft :: "string \<Rightarrow> string" where
  "TrimLeft s = (if leadingSpace s = 0 then s else TrimLeft (drop (leadingSpace s) s))"
  by pat_completeness auto
termination
proof (relation "measure length", goal_cases)
  case 1
  show ?case by simp
next
  case (2 s)
  with leadingSpace_le [of s] show ?case by simp
qed

declare TrimLeft.simps [simp del]

function TrimRight :: "string \<Rightarrow> string" where
  "TrimRight s =
     (if trailingSpace s = 0 then s else TrimRight (take (length s - trailingSpace s) s))"
  by pat_completeness auto
termination
proof (relation "measure length", goal_cases)
  case 1
  show ?case by simp
next
  case (2 s)
  with trailingSpace_le [of s] show ?case by simp
qed

declare TrimRight.simps [simp del]

definition TrimSpace :: "string \<Rightarrow> string" where
  "TrimSpace s = TrimRight (TrimLeft s)"

subsection \<open>strings.Replace\<close>

text \<open>
  \<open>strings.Replace(s, old, new, n)\<close> replaces the first \<open>n\<close> non-overlapping occurrences
  of \<open>old\<close>, all of them when \<open>n < 0\<close>. db.go calls it with the non-empty literals
  \<open>"delimiter "\<close> and \<open>"\n"\<close> only; for an empty \<open>old\<close> (where Go inserts \<open>new\<close> between
  code points) the model returns \<open>s\<close> unchanged.
\<close>

lemma Index_ge: "- 1 \<le> Index s substr"
  by (induction s) (auto simp: Let_def)

lemma Index_bound: "Index s substr \<noteq> - 1 \<Longrightarrow> Index s substr + int (length substr) \<le> int (length s)"
proof (induction s)
  case Nil
  then show ?case by (simp split: if_splits)
next
  case (Cons c s)
  show ?case
  proof (cases "prefix substr (c # s)")
    case True
    then show ?thesis using prefix_length_le [OF True] by simp
  next
    case False
    with Cons show ?thesis by (auto simp: Let_def split: if_splits)
  qed
qed

function Replace :: "string \<Rightarrow> string \<Rightarrow> string \<Rightarrow> int \<Rightarrow> string" where
  "Replace s old new n =
     (if n = 0 \<or> old = [] \<or> Index s old = - 1 then s
      else take (nat (Index s old)) s @ new
             @ Replace (drop (nat (Index s old) + length old) s) old new (n - 1))"
  by pat_completeness auto
termination
proof (relation "measure (\<lambda>(s, old, new, n). length s)", goal_cases)
  case 1
  then show ?case by simp
next
  case (2 s old new n)
  then have "old \<noteq> []" "Index s old \<noteq> - 1" by auto
  with Index_bound [of s old] have "s \<noteq> []" by auto
  with \<open>old \<noteq> []\<close> show ?case by simp
qed

declare Replace.simps [simp del]

subsection \<open>strings.ToLower and path.Ext\<close>

text \<open>
  \<open>strings.ToLower\<close> maps every code point to its lower case. The model lowers the ASCII
  letters and leaves every byte from 0x80 on as it is: db.go compares the result with
  \<open>".sql"\<close> only, and no code point outside ASCII has \<open>.\<close>, \<open>s\<close>, \<open>q\<close> or \<open>l\<close> as its
  lower case.
\<close>

definition toLowerByte :: "char \<Rightarrow> char" where
  "toLowerByte c =
     (if CHR ''A'' \<le> c \<and> c \<le> CHR ''Z'' then char_of (of_char c + (32::nat)) else c)"

definition ToLower :: "string \<Rightarrow> string" where
  "ToLower s = map toLowerByte s"

text \<open>
  \<open>path.Ext\<close> scans the path from its last byte towards the first, stops at a slash, and
  returns the suffix that starts at the first dot it meets; the empty string when it
  meets none. \<open>ExtFrom\<close> takes the bytes still to scan, last byte first, and the suffix
  already passed.
\<close>

fun ExtFrom :: "string \<Rightarrow> string \<Rightarrow> string" where
  "ExtFrom [] passed = []"
| "ExtFrom (c # earlier) passed =
     (if c = CHR ''/'' then []
      else if c = CHR ''.'' then c # passed
      else ExtFrom earlier (c # passed))"

definition Ext :: "string \<Rightarrow> string" where
  "Ext p = ExtFrom (rev p) []"

section \<open>Data model\<close>

text \<open>
  A Go \<open>interface{}\<close> value, as far as db.go passes one around: a query parameter, a
  column value handed to a \<open>Scanner\<close>, or the slice of parameters of a variadic call.
\<close>

datatype val = VString string | VInt int | VBytes "8 word list" | VNil | VSlice "val list"

text \<open>
  Errors. \<open>Cause\<close> is an error of the driver, the server or the file system;
  \<open>Msg m\<close> is \<open>fmt.Errorf(m)\<close>; \<open>Wrap c e\<close> is \<open>fmt.Errorf(c + ": %w", e)\<close>.
  A nil \<open>error\<close> is \<open>None\<close>.
\<close>

datatype error = Cause string | Msg string | Wrap string error

text \<open>A call either returns or panics (a nil handle or a nil file system is used).\<close>

datatype 'a ret = Return 'a | Panic

text \<open>
  The handles of \<open>database/sql\<close> the code holds: the connection \<open>NewDB\<close> opens and keeps
  in the field \<open>db\<close>, the short-lived connection that \<open>createDatabaseIfNotExist\<close> and
  \<open>dropExistingDatabaseIfExist\<close> open with no database selected, and a transaction.
\<close>

datatype handle = Main | Admin | InTx

text \<open>
  Everything the code does to the world outside the process is a call on one of these
  handles or a read of the migration file system. A run is described by the calls it
  makes, in order.
\<close>

datatype call =
    Open handle string
  | Ping handle
  | Close handle
  | Begin handle
  | Exec handle string "val list"
  | Query handle string "val list"
  | QueryRow handle string "val list"
  | ReadDir string
  | ReadFile string

record DirEntry =
  Name :: string
  IsDir :: bool

text \<open>\<open>fs.FS\<close> is a read-only file tree: \<open>fs.ReadDir\<close> and \<open>fs.ReadFile\<close> on it.\<close>

record FS =
  readDir :: "string \<Rightarrow> error + DirEntry list"
  readFile :: "string \<Rightarrow> error + string"

text \<open>\<open>mysql.Config\<close>: db.go reads and writes \<open>DBName\<close> only.\<close>

record Config =
  DBName :: string
  Others :: string

record DB =
  db :: "handle option"
  name :: string
  dsn :: string
  autoCreate :: bool
  dropExisting :: bool
  migrationsDir :: string
  migrationsFS :: "FS option"
  dropOnClose :: bool

record Tx =
  tx :: "handle option"

text \<open>
  The environment: what the server, the driver and the Go library answer.
  \<open>outcome\<close> is the error of a call (\<open>None\<close> when it succeeds), given the calls made
  before it; \<open>column\<close> is what \<open>QueryRow(...).Scan\<close> hands to the destination's
  \<open>Scan\<close> method (the single column of the first row), or the error of the query.
  \<open>ParseDSN\<close> and \<open>FormatDSN\<close> are those of the MySQL driver and \<open>Join\<close> is
  \<open>path.Join\<close>; they are parameters of the model.
\<close>

record env =
  outcome :: "call list \<Rightarrow> call \<Rightarrow> error option"
  column :: "call list \<Rightarrow> call \<Rightarrow> error + val"
  ParseDSN :: "string \<Rightarrow> error + Config"
  FormatDSN :: "Config \<Rightarrow> string"
  Join :: "string \<Rightarrow> string \<Rightarrow> string"

definition perform :: "env \<Rightarrow> call \<Rightarrow> call list \<Rightarrow> error option \<times> call list" where
  "perform env c t = (outcome env t c, t @ [c])"

definition scanRow :: "env \<Rightarrow> call \<Rightarrow> call list \<Rightarrow> (error + val) \<times> call list" where
  "scanRow env c t = (column env t c, t @ [c])"

section \<open>The connection facade (db.go, lines 28 to 74)\<close>

definition BeginTx :: "env \<Rightarrow> DB \<Rightarrow> call list \<Rightarrow> (Tx option \<times> error option) ret \<times> call list" where
  "BeginTx env d t =
     (case db d of
        None \<Rightarrow> (Panic, t)
      | Some h \<Rightarrow>
          (case perform env (Begin h) t of
             (Some err, t') \<Rightarrow> (Return (None, Some err), t')
           | (None, t') \<Rightarrow> (Return (Some \<lparr>tx = Some InTx\<rparr>, None), t')))"

text \<open>
  Inside \<open>Exec(query string, args ...interface{})\<close> the variable \<open>args\<close> is one value of
  type \<open>[]interface{}\<close>. The body calls \<open>db.db.Exec(query, args)\<close>, without \<open>...\<close>, so the
  variadic parameter of the callee holds a single element: that slice.
\<close>

definition DB_Exec :: "env \<Rightarrow> DB \<Rightarrow> string \<Rightarrow> val list \<Rightarrow> call list \<Rightarrow> error option ret \<times> call list" where
  "DB_Exec env d query args t =
     (case db d of
        None \<Rightarrow> (Panic, t)
      | Some h \<Rightarrow> (let (err, t') = perform env (Exec h query [VSlice args]) t in (Return err, t')))"

definition DB_Query :: "env \<Rightarrow> DB \<Rightarrow> string \<Rightarrow> val list \<Rightarrow> call list \<Rightarrow> error option ret \<times> call list" where
  "DB_Query env d query args t =
     (case db d of
        None \<Rightarrow> (Panic, t)
      | Some h \<Rightarrow> (let (err, t') = perform env (Query h query [VSlice args]) t in (Return err, t')))"

definition DB_QueryRow :: "env \<Rightarrow> DB \<Rightarrow> string \<Rightarrow> val list \<Rightarrow> call list \<Rightarrow> (error + val) ret \<times> call list" where
  "DB_QueryRow env d query args t =
     (case db d of
        None \<Rightarrow> (Panic, t)
      | Some h \<Rightarrow> (let (row, t') = scanRow env (QueryRow h query [VSlice args]) t in (Return row, t')))"

definition Tx_Exec :: "env \<Rightarrow> Tx \<Rightarrow> string \<Rightarrow> val list \<Rightarrow> call list \<Rightarrow> error option ret \<times> call list" where
  "Tx_Exec env x query args t =
     (case tx x of
        None \<Rightarrow> (Panic, t)
      | Some h \<Rightarrow> (let (err, t') = perform env (Exec h query [VSlice args]) t in (Return err, t')))"

definition Tx_Query :: "env \<Rightarrow> Tx \<Rightarrow> string \<Rightarrow> val list \<Rightarrow> call list \<Rightarrow> error option ret \<times> call list" where
  "Tx_Query env x query args t =
     (case tx x of
        None \<Rightarrow> (Panic, t)
      | Some h \<Rightarrow> (let (err, t') = perform env (Query h query [VSlice args]) t in (Return err, t')))"

definition Tx_QueryRow :: "env \<Rightarrow> Tx \<Rightarrow> string \<Rightarrow> val list \<Rightarrow> call list \<Rightarrow> (error + val) ret \<times> call list" where
  "Tx_QueryRow env x query args t =
     (case tx x of
        None \<Rightarrow> (Panic, t)
      | Some h \<Rightarrow> (let (row, t') = scanRow env (QueryRow h query [VSlice args]) t in (Return row, t')))"

section \<open>Options (lines 99 to 139)\<close>

text \<open>\<open>type Option func(*DB)\<close>: an option updates the DB under construction.\<close>

definition AutoCreateDB :: "DB \<Rightarrow> DB" where
  "AutoCreateDB d = d\<lparr>autoCreate := True\<rparr>"

definition DropExistingDB :: "DB \<Rightarrow> DB" where
  "DropExistingDB d = d\<lparr>dropExisting := True\<rparr>"

definition WithMigrations :: "FS option \<Rightarrow> string \<Rightarrow> DB \<Rightarrow> DB" where
  "WithMigrations fsys dir d = d\<lparr>migrationsFS := fsys, migrationsDir := dir\<rparr>"

definition DropDBOnClose :: "DB \<Rightarrow> DB" where
  "DropDBOnClose d = d\<lparr>dropOnClose := True\<rparr>"

section \<open>Administrative statements (lines 211 to 247)\<close>

text \<open>
  Both functions open a connection of their own, ping it, execute one statement and
  close the connection again (\<open>defer db.Close()\<close>, registered once \<open>sql.Open\<close> has
  succeeded; its error is dropped).
\<close>

definition createDatabaseIfNotExist :: "env \<Rightarrow> string \<Rightarrow> string \<Rightarrow> call list \<Rightarrow> error option \<times> call list" where
  "createDatabaseIfNotExist env adminDsn dbName t =
     (case perform env (Open Admin adminDsn) t of
        (Some err, t1) \<Rightarrow> (Some (Wrap ''opening database'' err), t1)
      | (None, t1) \<Rightarrow>
          (let (r, t') =
             (case perform env (Ping Admin) t1 of
                (Some err, t2) \<Rightarrow> (Some (Wrap ''pinging database'' err), t2)
              | (None, t2) \<Rightarrow>
                  (case perform env (Exec Admin (''CREATE DATABASE IF NOT EXISTS '' @ dbName @ '';'') []) t2 of
                     (Some err, t3) \<Rightarrow> (Some (Wrap ''creating database'' err), t3)
                   | (None, t3) \<Rightarrow> (None, t3)))
           in (r, snd (perform env (Close Admin) t'))))"

definition dropExistingDatabaseIfExist :: "env \<Rightarrow> string \<Rightarrow> string \<Rightarrow> call list \<Rightarrow> error option \<times> call list" where
  "dropExistingDatabaseIfExist env adminDsn dbName t =
     (case perform env (Open Admin adminDsn) t of
        (Some err, t1) \<Rightarrow> (Some (Wrap ''opening database'' err), t1)
      | (None, t1) \<Rightarrow>
          (let (r, t') =
             (case perform env (Ping Admin) t1 of
                (Some err, t2) \<Rightarrow> (Some (Wrap ''pinging database'' err), t2)
              | (None, t2) \<Rightarrow>
                  (case perform env (Exec Admin (''DROP DATABASE IF EXISTS '' @ dbName @ '';'') []) t2 of
                     (Some err, t3) \<Rightarrow> (Some (Wrap ''dropping database'' err), t3)
                   | (None, t3) \<Rightarrow> (None, t3)))
           in (r, snd (perform env (Close Admin) t'))))"

section \<open>The ledger look-up value (lines 360 to 376)\<close>

text \<open>
  \<open>func (b *Bool) Scan(src interface{}) error\<close>: anything but a byte slice is an error;
  the one-byte slices 0 and 1 set the receiver; every other byte slice leaves it as it is.
\<close>

fun typeName :: "val \<Rightarrow> string" where
  "typeName (VString _) = ''string''"
| "typeName (VInt _) = ''int64''"
| "typeName (VBytes _) = ''[]uint8''"
| "typeName VNil = ''<nil>''"
| "typeName (VSlice _) = ''[]interface {}''"

fun Bool_Scan :: "bool \<Rightarrow> val \<Rightarrow> error + bool" where
  "Bool_Scan b (VBytes tmp) =
     Inr (if tmp = [0] then False else if tmp = [1] then True else b)"
| "Bool_Scan b src = Inl (Msg (''unexpected type for mysqlBool: '' @ typeName src))"

section \<open>The migration runner (lines 249 to 351)\<close>

subsection \<open>Splitting one file into statements (lines 296 to 342)\<close>

text \<open>
  What one pass through the body of the loop \<open>for sql != ""\<close> decides: go round again with
  a delimiter and a remainder, leave the loop (\<open>break\<close>), or return an error from
  \<open>runMigrations\<close>.
\<close>

datatype flow = Continue string string | Break | Fail error

text \<open>
  \<open>iteration\<close> is the body of the loop, for a non-empty \<open>sql\<close>. The slices \<open>sql[:i]\<close> and
  \<open>sql[i:]\<close> are \<open>take\<close> and \<open>drop\<close>: in both branches the index is that of an
  occurrence found in \<open>sql\<close>, so it is within bounds and Go does not panic
  (lemma \<open>Index_bound\<close>).
\<close>

definition iteration :: "env \<Rightarrow> handle \<Rightarrow> string \<Rightarrow> string \<Rightarrow> string \<Rightarrow> call list \<Rightarrow> flow \<times> call list" where
  "iteration env h migration delim sql t =
     (let nextDelimIndex = Index sql delim;
          nextDelimChangeIndex = Index sql ''delimiter ''
      in
        if nextDelimIndex = - 1 \<and> nextDelimChangeIndex = - 1
        then (Fail (Msg (''unexpected end of migration: '' @ migration)), t)
        else if nextDelimChangeIndex = - 1
                \<or> (nextDelimIndex \<noteq> - 1 \<and> nextDelimIndex < nextDelimChangeIndex)
        then
          (let stmt = (if delim = '';'' then take (nat (nextDelimIndex + 1)) sql
                       else take (nat nextDelimIndex) sql)
           in case perform env (Exec h stmt []) t of
                (Some err, t') \<Rightarrow> (Fail (Wrap ''executing migration statement'' err), t')
              | (None, t') \<Rightarrow>
                  if int (length sql) \<le> nextDelimIndex then (Break, t')
                  else (Continue delim (TrimSpace (drop (nat (nextDelimIndex + 1)) sql)), t'))
        else
          (let delimLineEndIndex = Index sql ''\<newline>''
           in if delimLineEndIndex = - 1 then (Break, t)
              else
                (let delim1 = Replace (take (nat (delimLineEndIndex + 1)) sql) ''delimiter '' [] 1;
                     delim2 = Replace delim1 ''\<newline>'' [] (- 1);
                     delim3 = TrimSpace delim2
                 in if int (length sql) \<le> delimLineEndIndex then (Break, t)
                    else (Continue delim3 (TrimSpace (drop (nat (delimLineEndIndex + 1)) sql)), t))))"

lemma TrimLeft_length: "length (TrimLeft s) \<le> length s"
proof (induction s rule: TrimLeft.induct)
  case (1 s)
  show ?case
  proof (cases "leadingSpace s = 0")
    case True
    then show ?thesis by (subst TrimLeft.simps) simp
  next
    case False
    from 1 [OF False] have "length (TrimLeft (drop (leadingSpace s) s)) \<le> length s" by simp
    with False show ?thesis by (subst TrimLeft.simps) simp
  qed
qed

lemma TrimRight_length: "length (TrimRight s) \<le> length s"
proof (induction s rule: TrimRight.induct)
  case (1 s)
  show ?case
  proof (cases "trailingSpace s = 0")
    case True
    then show ?thesis by (subst TrimRight.simps) simp
  next
    case False
    from 1 [OF False] have "length (TrimRight (take (length s - trailingSpace s) s)) \<le> length s"
      by simp
    with False show ?thesis by (subst TrimRight.simps) simp
  qed
qed

lemma TrimSpace_length: "length (TrimSpace s) \<le> length s"
  unfolding TrimSpace_def using TrimRight_length [of "TrimLeft s"] TrimLeft_length [of s] by simp

lemma TrimSpace_drop_shorter: "s \<noteq> [] \<Longrightarrow> 0 < n \<Longrightarrow> length (TrimSpace (drop n s)) < length s"
  using TrimSpace_length [of "drop n s"] by (cases s) auto

lemma iteration_Continue_shorter:
  assumes "iteration env h migration delim sql t = (Continue delim' sql', t')" and "sql \<noteq> []"
  shows "length sql' < length sql"
proof -
  have a: "0 < nat (Index sql x + 1)" if "Index sql x \<noteq> - 1" for x
    using that Index_ge [of sql x] by simp
  from assms(1) show ?thesis
    unfolding iteration_def Let_def perform_def
    by (auto split: if_splits option.splits prod.splits
          intro!: TrimSpace_drop_shorter [OF assms(2)] a)
qed

text \<open>The loop \<open>for sql != ""\<close>. \<open>None\<close>: the loop was left and the code goes on to line 344.\<close>

function stmtLoop :: "env \<Rightarrow> handle \<Rightarrow> string \<Rightarrow> string \<Rightarrow> string \<Rightarrow> call list \<Rightarrow> error option \<times> call list" where
  "stmtLoop env h migration delim sql t =
     (if sql = [] then (None, t)
      else case iteration env h migration delim sql t of
             (Fail err, t') \<Rightarrow> (Some err, t')
           | (Break, t') \<Rightarrow> (None, t')
           | (Continue delim' sql', t') \<Rightarrow> stmtLoop env h migration delim' sql' t')"
  by pat_completeness auto
termination
proof (relation "measure (\<lambda>(env, h, migration, delim, sql, t). length sql)", goal_cases)
  case 1
  show ?case by simp
next
  case (2 env h migration delim sql t x1 t' delim' sql')
  then have "iteration env h migration delim sql t = (Continue delim' sql', t')" by simp
  from iteration_Continue_shorter [OF this] 2(1) show ?case by simp
qed

declare stmtLoop.simps [simp del]

subsection \<open>One migration file (the body of the loop of lines 278 to 348)\<close>

definition lookupQuery :: string where
  "lookupQuery = ''SELECT COALESCE((SELECT b'' @ [CHR 0x27] @ ''1'' @ [CHR 0x27]
     @ '' FROM __Migrations WHERE `Name` = ?), b'' @ [CHR 0x27] @ ''0'' @ [CHR 0x27] @ '');''"

definition insertQuery :: string where
  "insertQuery = ''INSERT INTO __Migrations(`Name`) VALUES (?);''"

text \<open>
  \<open>None\<close>: the loop goes on with the next file (\<open>continue\<close> on line 286, or the end of
  the body); \<open>Some err\<close>: \<open>runMigrations\<close> returns \<open>err\<close>. An error of the destination's
  \<open>Scan\<close> reaches the caller of \<open>row.Scan\<close> wrapped by \<open>database/sql\<close>.
\<close>

definition migrate :: "env \<Rightarrow> handle \<Rightarrow> FS \<Rightarrow> string \<Rightarrow> string \<Rightarrow> call list \<Rightarrow> error option \<times> call list" where
  "migrate env h fsys dir migration t =
     (case scanRow env (QueryRow h lookupQuery [VString migration]) t of
        (Inl err, t1) \<Rightarrow> (Some (Wrap ''querying for migration'' err), t1)
      | (Inr src, t1) \<Rightarrow>
          (case Bool_Scan False src of
             Inl err \<Rightarrow> (Some (Wrap ''querying for migration'' (Wrap ''sql: Scan error'' err)), t1)
           | Inr exists \<Rightarrow>
               if exists then (None, t1)
               else
                 (let p = Join env dir migration
                  in case readFile fsys p of
                       Inl err \<Rightarrow> (Some (Wrap (''reading file '' @ p) err), t1 @ [ReadFile p])
                     | Inr s \<Rightarrow>
                         (case stmtLoop env h migration '';'' (TrimSpace s) (t1 @ [ReadFile p]) of
                            (Some err, t3) \<Rightarrow> (Some err, t3)
                          | (None, t3) \<Rightarrow>
                              (case perform env (Exec h insertQuery [VString migration]) t3 of
                                 (Some err, t4) \<Rightarrow>
                                   (Some (Wrap (''inserting migration record '' @ [CHR 0x27]
                                                  @ migration @ [CHR 0x27]) err), t4)
                               | (None, t4) \<Rightarrow> (None, t4))))))"

fun migrationsLoop :: "env \<Rightarrow> handle \<Rightarrow> FS \<Rightarrow> string \<Rightarrow> string list \<Rightarrow> call list \<Rightarrow> error option \<times> call list" where
  "migrationsLoop env h fsys dir [] t = (None, t)"
| "migrationsLoop env h fsys dir (migration # migrations) t =
     (case migrate env h fsys dir migration t of
        (Some err, t') \<Rightarrow> (Some err, t')
      | (None, t') \<Rightarrow> migrationsLoop env h fsys dir migrations t')"

subsection \<open>Choosing the files (lines 261 to 276)\<close>

fun collect :: "DirEntry list \<Rightarrow> string list \<Rightarrow> string list" where
  "collect [] migrations = migrations"
| "collect (entry # entries) migrations =
     (if IsDir entry \<or> ToLower (Ext (Name entry)) \<noteq> ''.sql'' then collect entries migrations
      else collect entries (migrations @ [Name entry]))"

text \<open>
  \<open>sort.Strings\<close> puts the names in increasing order of Go's \<open><\<close> on strings, the
  lexicographic order of their bytes; that is the order of \<open>string\<close> here, and \<open>sort\<close>
  returns the one increasing arrangement of its argument.
\<close>

definition createTable :: string where
  "createTable = ''\<newline>CREATE TABLE IF NOT EXISTS __Migrations (\<newline>'' @ [CHR 0x09]
     @ ''ID INT NOT NULL AUTO_INCREMENT,\<newline>'' @ [CHR 0x09]
     @ ''`Name` VARCHAR(255) NOT NULL,\<newline>'' @ [CHR 0x09]
     @ ''RunAt TIMESTAMP NOT NULL DEFAULT CURRENT_TIMESTAMP,\<newline>'' @ [CHR 0x09]
     @ ''PRIMARY KEY(ID)\<newline>);''"

definition runMigrations :: "env \<Rightarrow> DB \<Rightarrow> call list \<Rightarrow> error option ret \<times> call list" where
  "runMigrations env d t =
     (case db d of
        None \<Rightarrow> (Panic, t)
      | Some h \<Rightarrow>
          (case perform env (Exec h createTable []) t of
             (Some err, t1) \<Rightarrow> (Return (Some (Wrap ''creating migrations table'' err)), t1)
           | (None, t1) \<Rightarrow>
               (case migrationsFS d of
                  None \<Rightarrow> (Panic, t1)
                | Some fsys \<Rightarrow>
                    (case readDir fsys (migrationsDir d) of
                       Inl err \<Rightarrow>
                         (Return (Some (Wrap ''reading migrations directory'' err)),
                          t1 @ [ReadDir (migrationsDir d)])
                     | Inr entries \<Rightarrow>
                         (let migrations = sort (collect entries []);
                              (r, t') = migrationsLoop env h fsys (migrationsDir d) migrations
                                          (t1 @ [ReadDir (migrationsDir d)])
                          in (Return r, t'))))))"

section \<open>Opening and closing (lines 141 to 209)\<close>

text \<open>
  \<open>NewDB\<close> in three parts: \<open>configure\<close> is lines 148 to 151 (the new \<open>DB\<close> with the
  options applied to it in order), \<open>NewDB_connect\<close> is lines 169 to 186 (open the
  connection, ping it, run the migrations), and \<open>NewDB\<close> is the whole function. The
  zero value of the fields an option may set is \<open>false\<close>, the empty string and the nil
  file system.
\<close>

definition NewDB_connect :: "env \<Rightarrow> DB \<Rightarrow> string \<Rightarrow> call list \<Rightarrow> (DB option \<times> error option) ret \<times> call list" where
  "NewDB_connect env d dsnArg t =
     (case perform env (Open Main dsnArg) t of
        (Some err, t1) \<Rightarrow> (Return (None, Some (Wrap ''opening database'' err)), t1)
      | (None, t1) \<Rightarrow>
          (let opened = d\<lparr>db := Some Main\<rparr>
           in case perform env (Ping Main) t1 of
                (Some err, t2) \<Rightarrow> (Return (None, Some err), snd (perform env (Close Main) t2))
              | (None, t2) \<Rightarrow>
                  if migrationsDir opened \<noteq> [] then
                    (case runMigrations env opened t2 of
                       (Panic, t3) \<Rightarrow> (Panic, t3)
                     | (Return (Some err), t3) \<Rightarrow>
                         (Return (None, Some (Wrap ''running migrations'' err)),
                          snd (perform env (Close Main) t3))
                     | (Return None, t3) \<Rightarrow> (Return (Some opened, None), t3))
                  else (Return (Some opened, None), t2)))"

definition configure :: "Config \<Rightarrow> string \<Rightarrow> (DB \<Rightarrow> DB) list \<Rightarrow> DB" where
  "configure cfg dsnArg options =
     foldl (\<lambda>d opt. opt d)
       \<lparr>db = None, name = DBName cfg, dsn = dsnArg, autoCreate = False, dropExisting = False,
        migrationsDir = [], migrationsFS = None, dropOnClose = False\<rparr> options"

definition NewDB :: "env \<Rightarrow> string \<Rightarrow> (DB \<Rightarrow> DB) list \<Rightarrow> call list \<Rightarrow> (DB option \<times> error option) ret \<times> call list" where
  "NewDB env dsnArg options t =
     (case ParseDSN env dsnArg of
        Inl err \<Rightarrow> (Return (None, Some (Wrap ''parsing dsn'' err)), t)
      | Inr cfg \<Rightarrow>
          (let d = configure cfg dsnArg options;
               (e1, t1) = (if dropExisting d
                           then dropExistingDatabaseIfExist env (FormatDSN env (cfg\<lparr>DBName := []\<rparr>)) (name d) t
                           else (None, t))
           in case e1 of
                Some err \<Rightarrow> (Return (None, Some (Wrap ''dropping existing database'' err)), t1)
              | None \<Rightarrow>
                  (let (e2, t2) = (if autoCreate d
                                   then createDatabaseIfNotExist env (FormatDSN env (cfg\<lparr>DBName := []\<rparr>)) (name d) t1
                                   else (None, t1))
                   in case e2 of
                        Some err \<Rightarrow> (Return (None, Some (Wrap ''auto-creating database'' err)), t2)
                      | None \<Rightarrow> NewDB_connect env d dsnArg t2)))"

definition DB_Close :: "env \<Rightarrow> DB \<Rightarrow> call list \<Rightarrow> error option ret \<times> call list" where
  "DB_Close env d t =
     (case db d of
        None \<Rightarrow> (Panic, t)
      | Some h \<Rightarrow>
          (case perform env (Close h) t of
             (Some err, t1) \<Rightarrow> (Return (Some (Wrap ''closing database'' err)), t1)
           | (None, t1) \<Rightarrow>
               if \<not> dropOnClose d then (Return None, t1)
               else
                 (case ParseDSN env (dsn d) of
                    Inl err \<Rightarrow> (Return (Some (Wrap ''parsing dsn'' err)), t1)
                  | Inr cfg \<Rightarrow>
                      (let (r, t') = dropExistingDatabaseIfExist env
                                       (FormatDSN env (cfg\<lparr>DBName := []\<rparr>)) (name d) t1
                       in (Return r, t')))))"

section \<open>The iterations of the splitting loop, and environments to run the model in\<close>

text \<open>
  \<open>iterations\<close> lists the passes through the body of the loop \<open>for sql != ""\<close> that a
  run makes: for each pass the delimiter, the remainder and the calls made so far, as
  they are when the pass begins. It follows \<open>stmtLoop\<close> step by step.
\<close>

function iterations :: "env \<Rightarrow> handle \<Rightarrow> string \<Rightarrow> string \<Rightarrow> string \<Rightarrow> call list \<Rightarrow> (string \<times> string \<times> call list) list" where
  "iterations env h migration delim sql t =
     (if sql = [] then []
      else (delim, sql, t) #
        (case iteration env h migration delim sql t of
           (Continue delim' sql', t') \<Rightarrow> iterations env h migration delim' sql' t'
         | (Break, t') \<Rightarrow> []
         | (Fail err, t') \<Rightarrow> []))"
  by pat_completeness auto
termination
proof (relation "measure (\<lambda>(env, h, migration, delim, sql, t). length sql)", goal_cases)
  case 1
  show ?case by simp
next
  case (2 env h migration delim sql t x1 t' delim' sql')
  then have "iteration env h migration delim sql t = (Continue delim' sql', t')" by simp
  from iteration_Continue_shorter [OF this] 2(1) show ?case by simp
qed

declare iterations.simps [simp del]

text \<open>
  \<open>quiet\<close> is an environment in which every call succeeds and every ledger look-up
  answers \<open>b'0'\<close> (not yet run). Its DSNs end with a slash and the database name.
\<close>

definition quiet :: env where
  "quiet =
     \<lparr>outcome = (\<lambda>t c. None),
      column = (\<lambda>t c. Inr (VBytes [0])),
      ParseDSN = (\<lambda>s. Inr \<lparr>DBName = rev (takeWhile (\<lambda>c. c \<noteq> CHR ''/'') (rev s)),
                            Others = rev (dropWhile (\<lambda>c. c \<noteq> CHR ''/'') (rev s))\<rparr>),
      FormatDSN = (\<lambda>cfg. Others cfg @ DBName cfg),
      Join = (\<lambda>dir file. dir @ ''/'' @ file)\<rparr>"

text \<open>A stored-procedure definition, to run the splitter on.\<close>

definition procedureBody :: string where
  "procedureBody = ''CREATE PROCEDURE p()\<newline>BEGIN\<newline>  SELECT 2;\<newline>END''"

section \<open>Reading a run off its calls\<close>

text \<open>
  What a call tells about the run: the file name of a ledger look-up (line 280), the file
  name of a ledger insertion (line 344), the path of a file read (line 290).
  \<open>succeeded env t cs\<close> says that each of the calls \<open>cs\<close>, made in this order after
  the calls \<open>t\<close>, returned without error.
\<close>

fun lookedUp :: "call \<Rightarrow> string option" where
  "lookedUp (QueryRow h q [VString m]) = (if q = lookupQuery then Some m else None)"
| "lookedUp c = None"

fun recorded :: "call \<Rightarrow> string option" where
  "recorded (Exec h q [VString m]) = (if q = insertQuery then Some m else None)"
| "recorded c = None"

fun fileRead :: "call \<Rightarrow> string option" where
  "fileRead (ReadFile p) = Some p"
| "fileRead c = None"

fun succeeded :: "env \<Rightarrow> call list \<Rightarrow> call list \<Rightarrow> bool" where
  "succeeded env t [] = True"
| "succeeded env t (c # cs) = (outcome env t c = None \<and> succeeded env (t @ [c]) cs)"

text \<open>
  A migration directory with two migration files, a directory and another file, listed
  out of order; a DB configured on it; an environment in which every ledger look-up
  answers \<open>b'1'\<close> (already run); and one in which a given call fails.
\<close>

definition sampleEntries :: "DirEntry list" where
  "sampleEntries =
     [\<lparr>Name = ''02_x.sql'', IsDir = False\<rparr>, \<lparr>Name = ''archive.sql'', IsDir = True\<rparr>,
      \<lparr>Name = ''notes.txt'', IsDir = False\<rparr>, \<lparr>Name = ''01_y.SQL'', IsDir = False\<rparr>]"

definition sampleFS :: FS where
  "sampleFS =
     \<lparr>readDir = (\<lambda>dir. if dir = ''migrations'' then Inr sampleEntries
                  else Inl (Cause ''file does not exist'')),
      readFile = (\<lambda>p. if p = ''migrations/01_y.SQL'' then Inr ''CREATE TABLE y (id INT);''
                  else if p = ''migrations/02_x.sql''
                    then Inr ''ALTER TABLE y ADD x INT;\<newline>UPDATE y SET x = 0;\<newline>''
                  else Inl (Cause ''file does not exist''))\<rparr>"

definition sampleDB :: DB where
  "sampleDB =
     \<lparr>db = Some Main, name = ''app'', dsn = ''root@/app'', autoCreate = False,
      dropExisting = False, migrationsDir = ''migrations'', migrationsFS = Some sampleFS,
      dropOnClose = True\<rparr>"

definition applied :: env where
  "applied = quiet\<lparr>column := (\<lambda>t c. Inr (VBytes [1]))\<rparr>"

definition refusing :: "call \<Rightarrow> env" where
  "refusing c = quiet\<lparr>outcome := (\<lambda>t c'. if c' = c then Some (Cause ''refused'') else None)\<rparr>"

text \<open>
  \<open>migrationWork\<close> holds of the calls that only \<open>runMigrations\<close> makes: a statement or a
  query on the connection \<open>NewDB\<close> opened, and a read of the migration file system.
\<close>

fun migrationWork :: "call \<Rightarrow> bool" where
  "migrationWork (Exec h q args) = (h = Main)"
| "migrationWork (Query h q args) = (h = Main)"
| "migrationWork (QueryRow h q args) = (h = Main)"
| "migrationWork (ReadDir p) = True"
| "migrationWork (ReadFile p) = True"
| "migrationWork c = False"

section \<open>The connection facade passes its parameters on as one slice\<close>

text \<open>
  Claim C1 says that \<open>Exec\<close>, \<open>Query\<close> and \<open>QueryRow\<close>, of \<open>DB\<close> and of \<open>Tx\<close>, pass each
  parameter to the underlying connection as a positional argument of its own. The code
  does not: all six methods call the underlying method with \<open>args\<close> instead of \<open>args...\<close>.
  For every query and every parameter list the call that reaches the connection has
  exactly one argument, the slice of all parameters, and that one-element argument list
  is never the caller's list. With the parameters \<open>(a, b)\<close> the first placeholder is
  bound to the slice \<open>[a, b]\<close> and the second to nothing.
\<close>

theorem facade_passes_one_slice:
  "snd (DB_Exec env (d\<lparr>db := Some h\<rparr>) query args t) = t @ [Exec h query [VSlice args]]
   \<and> snd (DB_Query env (d\<lparr>db := Some h\<rparr>) query args t) = t @ [Query h query [VSlice args]]
   \<and> snd (DB_QueryRow env (d\<lparr>db := Some h\<rparr>) query args t) = t @ [QueryRow h query [VSlice args]]
   \<and> snd (Tx_Exec env \<lparr>tx = Some h\<rparr> query args t) = t @ [Exec h query [VSlice args]]
   \<and> snd (Tx_Query env \<lparr>tx = Some h\<rparr> query args t) = t @ [Query h query [VSlice args]]
   \<and> snd (Tx_QueryRow env \<lparr>tx = Some h\<rparr> query args t) = t @ [QueryRow h query [VSlice args]]
   \<and> [VSlice args] \<noteq> args"
proof -
  have "[VSlice args] \<noteq> args"
  proof
    assume "[VSlice args] = args"
    then have "size_list size [VSlice args] = size_list size args" by (rule arg_cong)
    then show False by simp
  qed
  then show ?thesis
    by (simp add: DB_Exec_def DB_Query_def DB_QueryRow_def Tx_Exec_def Tx_Query_def
        Tx_QueryRow_def perform_def scanRow_def)
qed

section \<open>White space\<close>

lemma leadingSpace_0_iff: "leadingSpace s = 0 \<longleftrightarrow> (\<forall>r \<in> set spaces. \<not> prefix r s)"
proof
  assume z: "leadingSpace s = 0"
  show "\<forall>r \<in> set spaces. \<not> prefix r s"
  proof (rule ccontr)
    assume "\<not> (\<forall>r \<in> set spaces. \<not> prefix r s)"
    then have "find (\<lambda>r. prefix r s) spaces \<noteq> None" by (auto simp: find_None_iff)
    then obtain r' where f: "find (\<lambda>r. prefix r s) spaces = Some r'" by blast
    then have "r' \<in> set spaces" by (auto simp: find_Some_iff)
    with spaces_nonempty f z show False by (simp add: leadingSpace_def)
  qed
next
  assume "\<forall>r \<in> set spaces. \<not> prefix r s"
  then have "find (\<lambda>r. prefix r s) spaces = None" by (simp add: find_None_iff)
  then show "leadingSpace s = 0" by (simp add: leadingSpace_def)
qed

lemma trailingSpace_0_iff: "trailingSpace s = 0 \<longleftrightarrow> (\<forall>r \<in> set spaces. \<not> suffix r s)"
proof
  assume z: "trailingSpace s = 0"
  show "\<forall>r \<in> set spaces. \<not> suffix r s"
  proof (rule ccontr)
    assume "\<not> (\<forall>r \<in> set spaces. \<not> suffix r s)"
    then have "find (\<lambda>r. suffix r s) spaces \<noteq> None" by (auto simp: find_None_iff)
    then obtain r' where f: "find (\<lambda>r. suffix r s) spaces = Some r'" by blast
    then have "r' \<in> set spaces" by (auto simp: find_Some_iff)
    with spaces_nonempty f z show False by (simp add: trailingSpace_def)
  qed
next
  assume "\<forall>r \<in> set spaces. \<not> suffix r s"
  then have "find (\<lambda>r. suffix r s) spaces = None" by (simp add: find_None_iff)
  then show "trailingSpace s = 0" by (simp add: trailingSpace_def)
qed

lemma TrimLeft_fix: "leadingSpace s = 0 \<Longrightarrow> TrimLeft s = s"
  by (subst TrimLeft.simps) simp

lemma TrimRight_fix: "trailingSpace s = 0 \<Longrightarrow> TrimRight s = s"
  by (subst TrimRight.simps) simp

lemma leadingSpace_TrimLeft: "leadingSpace (TrimLeft s) = 0"
proof (induction s rule: TrimLeft.induct)
  case (1 s)
  then show ?case by (subst TrimLeft.simps) simp
qed

lemma trailingSpace_TrimRight: "trailingSpace (TrimRight s) = 0"
proof (induction s rule: TrimRight.induct)
  case (1 s)
  then show ?case by (subst TrimRight.simps) simp
qed

lemma TrimRight_prefix: "prefix (TrimRight s) s"
proof (induction s rule: TrimRight.induct)
  case (1 s)
  show ?case
  proof (cases "trailingSpace s = 0")
    case True
    then show ?thesis by (simp add: TrimRight_fix)
  next
    case False
    from 1 [OF False] have "prefix (TrimRight (take (length s - trailingSpace s) s)) s"
      using prefix_order.trans take_is_prefix by blast
    with False show ?thesis by (subst TrimRight.simps) simp
  qed
qed

lemma leadingSpace_prefix: "prefix a b \<Longrightarrow> leadingSpace b = 0 \<Longrightarrow> leadingSpace a = 0"
  unfolding leadingSpace_0_iff using prefix_order.trans by blast

lemma TrimSpace_trimmed: "leadingSpace (TrimSpace s) = 0" "trailingSpace (TrimSpace s) = 0"
  unfolding TrimSpace_def
  by (rule leadingSpace_prefix [OF TrimRight_prefix leadingSpace_TrimLeft])
     (rule trailingSpace_TrimRight)

lemma TrimSpace_fix: "leadingSpace s = 0 \<Longrightarrow> trailingSpace s = 0 \<Longrightarrow> TrimSpace s = s"
  by (simp add: TrimSpace_def TrimLeft_fix TrimRight_fix)

lemma TrimSpace_idem: "TrimSpace (TrimSpace s) = TrimSpace s"
  by (rule TrimSpace_fix) (rule TrimSpace_trimmed)+

lemma iteration_Continue_trimmed:
  "iteration env h m d s t = (Continue d' s', t') \<Longrightarrow> TrimSpace s' = s'"
  unfolding iteration_def Let_def perform_def
  by (auto split: if_splits option.splits simp: TrimSpace_idem)

lemma iterations_trimmed:
  "TrimSpace s = s \<Longrightarrow> (d', s', t') \<in> set (iterations env h m d s t) \<Longrightarrow> s' \<noteq> [] \<and> TrimSpace s' = s'"
proof (induction env h m d s t rule: iterations.induct)
  case (1 env h m d s t)
  show ?case
  proof (cases "s = []")
    case True
    with 1(3) show ?thesis by (simp add: iterations.simps)
  next
    case False
    obtain fl t1 where it: "iteration env h m d s t = (fl, t1)" by (cases "iteration env h m d s t")
    show ?thesis
    proof (cases fl)
      case (Continue d1 s1)
      have its: "iterations env h m d s t = (d, s, t) # iterations env h m d1 s1 t1"
        using False it Continue by (subst iterations.simps) simp
      from iteration_Continue_trimmed it Continue have "TrimSpace s1 = s1" by simp
      from 1(1) [OF False it [symmetric] Continue this]
      show ?thesis using 1(2,3) False unfolding its by auto
    next
      case Break
      have "iterations env h m d s t = [(d, s, t)]"
        using False it Break by (subst iterations.simps) simp
      with 1(2,3) False show ?thesis by simp
    next
      case (Fail err)
      have "iterations env h m d s t = [(d, s, t)]"
        using False it Fail by (subst iterations.simps) simp
      with 1(2,3) False show ?thesis by simp
    qed
  qed
qed

section \<open>The unterminated-statement error\<close>

lemma iteration_unterminated:
  "fst (iteration env h m d s t) = Fail (Msg (''unexpected end of migration: '' @ m))
   \<longleftrightarrow> Index s d = - 1 \<and> Index s ''delimiter '' = - 1"
  unfolding iteration_def Let_def perform_def
  by (simp split: option.splits)

lemma stmtLoop_unexpected_end:
  "fst (stmtLoop env h m d s t) = Some (Msg (''unexpected end of migration: '' @ m))
   \<longleftrightarrow> (\<exists>(d', s', t') \<in> set (iterations env h m d s t).
          Index s' d' = - 1 \<and> Index s' ''delimiter '' = - 1)"
proof (induction env h m d s t rule: stmtLoop.induct)
  case (1 env h m d s t)
  show ?case
  proof (cases "s = []")
    case True
    then show ?thesis by (simp add: stmtLoop.simps iterations.simps)
  next
    case False
    obtain fl t' where it: "iteration env h m d s t = (fl, t')" by (cases "iteration env h m d s t")
    from iteration_unterminated [of env h m d s t] it
    have un: "fl = Fail (Msg (''unexpected end of migration: '' @ m))
              \<longleftrightarrow> Index s d = - 1 \<and> Index s ''delimiter '' = - 1" by simp
    show ?thesis
    proof (cases fl)
      case (Continue d' s')
      with un have neg: "\<not> (Index s d = - 1 \<and> Index s ''delimiter '' = - 1)" by simp
      from 1 [OF False it [symmetric] Continue]
      have ih: "fst (stmtLoop env h m d' s' t') = Some (Msg (''unexpected end of migration: '' @ m))
            \<longleftrightarrow> (\<exists>(d', s', t') \<in> set (iterations env h m d' s' t').
                  Index s' d' = - 1 \<and> Index s' ''delimiter '' = - 1)" .
      have sl: "stmtLoop env h m d s t = stmtLoop env h m d' s' t'"
        using False it Continue by (subst stmtLoop.simps) simp
      have its: "iterations env h m d s t = (d, s, t) # iterations env h m d' s' t'"
        using False it Continue by (subst iterations.simps) simp
      show ?thesis unfolding sl its using ih neg by auto
    next
      case Break
      with un have neg: "\<not> (Index s d = - 1 \<and> Index s ''delimiter '' = - 1)" by simp
      have sl: "stmtLoop env h m d s t = (None, t')"
        using False it Break by (subst stmtLoop.simps) simp
      have its: "iterations env h m d s t = [(d, s, t)]"
        using False it Break by (subst iterations.simps) simp
      show ?thesis unfolding sl its using neg by auto
    next
      case (Fail err)
      have sl: "stmtLoop env h m d s t = (Some err, t')"
        using False it Fail by (subst stmtLoop.simps) simp
      have its: "iterations env h m d s t = [(d, s, t)]"
        using False it Fail by (subst iterations.simps) simp
      show ?thesis unfolding sl its using un Fail by auto
    qed
  qed
qed

text \<open>
  Claim C6. Splitting a file starts from the trimmed text with the delimiter \<open>;\<close>. It
  returns the error \<open>unexpected end of migration\<close> exactly when one of the passes of
  the loop begins with a remainder (not empty, and trimmed) in which neither the current
  delimiter nor the token \<open>"delimiter "\<close> occurs. A script that is empty once trimmed
  makes no call and gives no error.
\<close>

theorem unterminated_statement_error:
  "(fst (stmtLoop env h m '';'' (TrimSpace script) t)
      = Some (Msg (''unexpected end of migration: '' @ m))
    \<longleftrightarrow> (\<exists>(d, s, t') \<in> set (iterations env h m '';'' (TrimSpace script) t).
           s \<noteq> [] \<and> TrimSpace s = s \<and> Index s d = - 1 \<and> Index s ''delimiter '' = - 1))
   \<and> (TrimSpace script = [] \<longrightarrow> stmtLoop env h m '';'' (TrimSpace script) t = (None, t))"
proof (intro conjI impI)
  show "fst (stmtLoop env h m '';'' (TrimSpace script) t)
      = Some (Msg (''unexpected end of migration: '' @ m))
    \<longleftrightarrow> (\<exists>(d, s, t') \<in> set (iterations env h m '';'' (TrimSpace script) t).
           s \<noteq> [] \<and> TrimSpace s = s \<and> Index s d = - 1 \<and> Index s ''delimiter '' = - 1)"
  proof -
    have inv: "s \<noteq> [] \<and> TrimSpace s = s"
      if "(d, s, t') \<in> set (iterations env h m '';'' (TrimSpace script) t)" for d s t'
      using that by (rule iterations_trimmed [OF TrimSpace_idem])
    show ?thesis unfolding stmtLoop_unexpected_end using inv by fast
  qed
next
  assume "TrimSpace script = []"
  then show "stmtLoop env h m '';'' (TrimSpace script) t = (None, t)"
    by (simp add: stmtLoop.simps)
qed

theorem unterminated_statement_error_witness:
  "fst (stmtLoop quiet Main ''001.sql'' '';'' (TrimSpace ''SELECT 1; SELECT 2'') [])
      = Some (Msg (''unexpected end of migration: '' @ ''001.sql''))
   \<and> (\<exists>(d, s, t') \<in> set (iterations quiet Main ''001.sql'' '';'' (TrimSpace ''SELECT 1; SELECT 2'') []).
           s \<noteq> [] \<and> TrimSpace s = s \<and> Index s d = - 1 \<and> Index s ''delimiter '' = - 1)
   \<and> TrimSpace '' \<newline> '' = []
   \<and> stmtLoop quiet Main ''001.sql'' '';'' (TrimSpace '' \<newline> '') [] = (None, [])"
proof -
  have a: "fst (stmtLoop quiet Main ''001.sql'' '';'' (TrimSpace ''SELECT 1; SELECT 2'') [])
      = Some (Msg (''unexpected end of migration: '' @ ''001.sql''))"
    by code_simp
  have b: "TrimSpace '' \<newline> '' = []" by code_simp
  from a b unterminated_statement_error [of quiet Main "''001.sql''" "''SELECT 1; SELECT 2''" "[]"]
    unterminated_statement_error [of quiet Main "''001.sql''" "'' \<newline> ''" "[]"]
  show ?thesis by blast
qed

section \<open>The statements a file is split into\<close>

lemma Index_found:
  "Index s d = int i \<Longrightarrow> prefix d (drop i s) \<and> (\<forall>j<i. \<not> prefix d (drop j s))"
proof (induction s arbitrary: i)
  case Nil
  then show ?case by (simp split: if_splits)
next
  case (Cons c s)
  show ?case
  proof (cases "prefix d (c # s)")
    case True
    with Cons.prems show ?thesis by simp
  next
    case False
    with Cons.prems have k: "Index s d \<noteq> - 1" "Index s d + 1 = int i"
      by (auto simp: Let_def split: if_splits)
    with Index_ge [of s d] obtain i' where i': "i = Suc i'" "Index s d = int i'"
      by (cases i) auto
    from Cons.IH [OF i'(2)] False i'(1) show ?thesis
      by (auto simp: less_Suc_eq_0_disj)
  qed
qed

lemma no_space_ends_with_semicolon: "r \<in> set spaces \<Longrightarrow> last r \<noteq> CHR '';''"
  by (auto simp: spaces_def)

lemma trailingSpace_semicolon: "trailingSpace (s @ '';'') = 0"
proof -
  have "\<not> suffix r (s @ '';'')" if "r \<in> set spaces" for r
  proof
    assume "suffix r (s @ '';'')"
    then obtain u where "s @ '';'' = u @ r" by (auto simp: suffix_def)
    with spaces_nonempty [OF that] have "last r = last (s @ '';'')"
      by (metis last_appendR)
    then have "last r = CHR '';''" by simp
    with no_space_ends_with_semicolon [OF that] show False by simp
  qed
  then show ?thesis by (simp add: trailingSpace_0_iff)
qed

lemma iteration_emits:
  assumes "iteration env h m d s t = (fl, t')" and "t' \<noteq> t" and "leadingSpace s = 0"
  shows "\<exists>i stmt. Index s d = int i \<and> prefix d (drop i s) \<and> (\<forall>j<i. \<not> prefix d (drop j s))
           \<and> t' = t @ [Exec h stmt []] \<and> TrimLeft stmt = stmt
           \<and> (d = '';'' \<longrightarrow> stmt = take i s @ '';'' \<and> TrimSpace stmt = stmt)
           \<and> (d \<noteq> '';'' \<longrightarrow> stmt = take i s)"
proof -
  define stmt where "stmt = (if d = '';'' then take (nat (Index s d + 1)) s else take (nat (Index s d)) s)"
  from assms(1,2) have found: "Index s d \<noteq> - 1" and t': "t' = t @ [Exec h stmt []]"
    unfolding iteration_def Let_def perform_def stmt_def
    by (auto split: if_splits option.splits)
  from found Index_ge [of s d] have "0 \<le> Index s d" by arith
  then obtain i where i: "Index s d = int i" using zero_le_imp_eq_int by blast
  from Index_found [OF i] have occ: "prefix d (drop i s)" "\<forall>j<i. \<not> prefix d (drop j s)" by simp_all
  have "prefix stmt s" unfolding stmt_def by (simp add: take_is_prefix)
  from leadingSpace_prefix [OF this assms(3)] have lead: "leadingSpace stmt = 0" .
  have semi: "stmt = take i s @ '';''" if "d = '';''"
  proof -
    from occ(1) that obtain r where r: "drop i s = CHR '';'' # r" by (auto simp: prefix_def)
    then have len: "i < length s" by (cases "i < length s") auto
    have "s ! i = hd (drop i s)" by (simp add: hd_drop_conv_nth len)
    with r have "s ! i = CHR '';''" by simp
    with take_Suc_conv_app_nth [OF len] have "take (Suc i) s = take i s @ '';''" by simp
    with that i show ?thesis by (simp add: stmt_def nat_add_distrib)
  qed
  have "TrimSpace stmt = stmt" if "d = '';''"
    using semi [OF that] lead trailingSpace_semicolon [of "take i s"] by (simp add: TrimSpace_fix)
  with i occ t' lead semi show ?thesis
    by (intro exI [of _ i] exI [of _ stmt]) (auto simp: TrimLeft_fix stmt_def)
qed

text \<open>
  Claim C2, as amended. Take any script and any pass of the splitting loop that executes
  a statement. The statement starts where the (trimmed) remainder starts and ends at the
  first occurrence of the current delimiter in it; it does not begin with white space.
  When the delimiter is \<open>;\<close> the statement keeps that semicolon as its last byte, so it
  does not end with white space either. For any other delimiter the statement stops
  just before the delimiter and is passed on as it is: white space that stands between
  the text and the delimiter stays at the end of the statement.
\<close>

theorem emitted_statement:
  assumes "(d, s, t') \<in> set (iterations env h m '';'' (TrimSpace script) t)"
    and "iteration env h m d s t' = (fl, t'')"
    and "t'' \<noteq> t'"
  shows "\<exists>i stmt. Index s d = int i \<and> prefix d (drop i s) \<and> (\<forall>j<i. \<not> prefix d (drop j s))
           \<and> t'' = t' @ [Exec h stmt []] \<and> TrimLeft stmt = stmt
           \<and> (d = '';'' \<longrightarrow> stmt = take i s @ '';'' \<and> TrimSpace stmt = stmt)
           \<and> (d \<noteq> '';'' \<longrightarrow> stmt = take i s)"
proof -
  from iterations_trimmed [OF TrimSpace_idem assms(1)] have "TrimSpace s = s" by simp
  with TrimSpace_trimmed(1) [of s] have "leadingSpace s = 0" by simp
  from iteration_emits [OF assms(2,3) this] show ?thesis .
qed

theorem emitted_statement_witness:
  "(''$$'', ''SELECT 1 $$\<newline>delimiter ;\<newline>SELECT 2;'', [])
     \<in> set (iterations quiet Main ''001.sql'' '';''
              (TrimSpace ''delimiter $$\<newline>SELECT 1 $$\<newline>delimiter ;\<newline>SELECT 2;'') [])
   \<and> iteration quiet Main ''001.sql'' ''$$'' ''SELECT 1 $$\<newline>delimiter ;\<newline>SELECT 2;'' []
       = (Continue ''$$'' ''$\<newline>delimiter ;\<newline>SELECT 2;'', [Exec Main ''SELECT 1 '' []])
   \<and> (\<exists>i stmt. Index ''SELECT 1 $$\<newline>delimiter ;\<newline>SELECT 2;'' ''$$'' = int i
           \<and> prefix ''$$'' (drop i ''SELECT 1 $$\<newline>delimiter ;\<newline>SELECT 2;'')
           \<and> (\<forall>j<i. \<not> prefix ''$$'' (drop j ''SELECT 1 $$\<newline>delimiter ;\<newline>SELECT 2;''))
           \<and> [Exec Main ''SELECT 1 '' []] = [] @ [Exec Main stmt []] \<and> TrimLeft stmt = stmt
           \<and> (''$$'' = '';'' \<longrightarrow> stmt = take i ''SELECT 1 $$\<newline>delimiter ;\<newline>SELECT 2;'' @ '';''
                 \<and> TrimSpace stmt = stmt)
           \<and> (''$$'' \<noteq> '';'' \<longrightarrow> stmt = take i ''SELECT 1 $$\<newline>delimiter ;\<newline>SELECT 2;''))"
proof -
  have a: "(''$$'', ''SELECT 1 $$\<newline>delimiter ;\<newline>SELECT 2;'', [])
     \<in> set (iterations quiet Main ''001.sql'' '';''
              (TrimSpace ''delimiter $$\<newline>SELECT 1 $$\<newline>delimiter ;\<newline>SELECT 2;'') [])"
    by code_simp
  have b: "iteration quiet Main ''001.sql'' ''$$'' ''SELECT 1 $$\<newline>delimiter ;\<newline>SELECT 2;'' []
       = (Continue ''$$'' ''$\<newline>delimiter ;\<newline>SELECT 2;'', [Exec Main ''SELECT 1 '' []])"
    by code_simp
  have c: "[Exec Main ''SELECT 1 '' []] \<noteq> []" by simp
  from emitted_statement [OF a b c] a b show ?thesis by (intro conjI)
qed

text \<open>
  Claim C2 as the specification states it (every statement is trimmed on both sides)
  fails for a custom delimiter: the statement \<open>SELECT 1\<close> followed by a blank and \<open>$$\<close>
  is executed with its trailing blank.
\<close>

theorem custom_statement_keeps_trailing_space:
  "stmtLoop quiet Main ''001.sql'' '';''
     (TrimSpace ''delimiter $$\<newline>SELECT 1 $$\<newline>delimiter ;\<newline>SELECT 2;'') []
     = (None, [Exec Main ''SELECT 1 '' [], Exec Main ''SELECT 2;'' []])
   \<and> TrimSpace ''SELECT 1 '' \<noteq> ''SELECT 1 ''"
  by code_simp

section \<open>How far the loop advances after a statement\<close>

text \<open>
  Claim C4 says that after a statement the scan position moves past the whole
  delimiter. The code moves one byte past the start of the delimiter
  (\<open>sql[nextDelimIndex+1:]\<close>), whatever the delimiter's length. With the delimiter \<open>$$\<close>
  the second \<open>$\<close> stays in the remainder: it becomes the first byte of the next
  statement, and a script that ends with \<open>$$\<close> ends with the unterminated-statement error.
\<close>

theorem advance_is_one_byte:
  "iteration quiet Main ''001.sql'' ''$$'' ''A$$\<newline>B$$\<newline>delimiter ;'' []
     = (Continue ''$$'' ''$\<newline>B$$\<newline>delimiter ;'', [Exec Main ''A'' []])
   \<and> stmtLoop quiet Main ''001.sql'' '';'' (TrimSpace ''delimiter $$\<newline>A$$\<newline>B$$\<newline>delimiter ;'') []
     = (None, [Exec Main ''A'' [], Exec Main ''$\<newline>B'' []])
   \<and> stmtLoop quiet Main ''001.sql'' '';'' (TrimSpace ''delimiter $$\<newline>A$$'') []
     = (Some (Msg ''unexpected end of migration: 001.sql''), [Exec Main ''A'' []])"
  by code_simp

section \<open>The delimiter directive\<close>

text \<open>
  Claim C5 says that the line end used by the directive branch is the next line break
  after the directive token, and that the new delimiter is the text between the token
  and that line end. The code takes the first line break of the remainder
  (\<open>strings.Index(sql, "\n")\<close>) and, as the new delimiter, that whole first line with the
  first occurrence of the token removed. When the token is not at the start of the
  remainder the first line may end before the token, or hold other text.
\<close>

theorem directive_line_end_is_first_newline:
  "iteration quiet Main ''001.sql'' ''$$'' ''$\<newline>delimiter ;\<newline>SELECT 1;'' []
     = (Continue ''$'' ''delimiter ;\<newline>SELECT 1;'', [])
   \<and> iteration quiet Main ''001.sql'' '';'' ''-- routines\<newline>delimiter $$\<newline>SELECT 1$$'' []
     = (Continue ''-- routines'' ''delimiter $$\<newline>SELECT 1$$'', [])
   \<and> iteration quiet Main ''001.sql'' '';'' ''SELECT 1 delimiter $$\<newline>SELECT 2$$'' []
     = (Continue ''SELECT 1 $$'' ''SELECT 2$$'', [])"
  by code_simp

section \<open>A script that changes the delimiter and changes it back\<close>

lemma stmtLoop_Nil: "stmtLoop env h m d [] t = (None, t)"
  by (simp add: stmtLoop.simps)

lemma stmtLoop_Continue:
  "s \<noteq> [] \<Longrightarrow> iteration env h m d s t = (Continue d' s', t')
   \<Longrightarrow> stmtLoop env h m d s t = stmtLoop env h m d' s' t'"
  by (subst stmtLoop.simps) simp

lemma Index_nonempty: "Index s d = int i \<Longrightarrow> d \<noteq> [] \<Longrightarrow> s \<noteq> []"
  by (cases s) auto

lemma iteration_directive_branch:
  assumes "Index s ''delimiter '' = int k"
    and "Index s d = - 1 \<or> int k \<le> Index s d"
    and "Index s ''\<newline>'' = int n"
  shows "iteration env h m d s t
         = (Continue (TrimSpace (Replace (Replace (take (Suc n) s) ''delimiter '' [] 1) ''\<newline>'' [] (- 1)))
              (TrimSpace (drop (Suc n) s)), t)"
proof -
  from Index_bound [of s "''\<newline>''"] assms(3) have "\<not> int (length s) \<le> int n" by simp
  with assms show ?thesis
    unfolding iteration_def Let_def
    by (auto simp: nat_add_distrib)
qed

lemma iteration_statement_branch:
  assumes "Index s d = int i"
    and "Index s ''delimiter '' = - 1 \<or> int i < Index s ''delimiter ''"
    and "stmt = (if d = '';'' then take (Suc i) s else take i s)"
    and "outcome env t (Exec h stmt []) = None"
    and "s \<noteq> []"
  shows "iteration env h m d s t
         = (Continue d (TrimSpace (drop (Suc i) s)), t @ [Exec h stmt []])"
proof -
  have "int i < int (length s)"
  proof (cases "d = []")
    case True
    with assms(1) have "i = 0" by (cases s) (auto split: if_splits)
    with assms(5) show ?thesis by simp
  next
    case False
    with Index_bound [of s d] assms(1) show ?thesis by (cases d) auto
  qed
  with assms show ?thesis
    unfolding iteration_def Let_def perform_def
    by (auto simp: nat_add_distrib)
qed

lemma Index_dollars:
  "Index (b @ ''$'') ''$$'' = - 1 \<Longrightarrow> Index (b @ ''$$'' @ r) ''$$'' = int (length b)"
proof (induction b)
  case Nil
  then show ?case by simp
next
  case (Cons c b)
  from Cons.prems Index_ge [of "b @ ''$''" "''$$''"]
  have np: "\<not> prefix ''$$'' (c # b @ ''$'')" and nx: "Index (b @ ''$'') ''$$'' = - 1"
    by (auto simp: Let_def split: if_splits)
  from np have "\<not> prefix ''$$'' (c # b @ ''$$'' @ r)" by (cases b) auto
  with Cons.IH [OF nx] show ?case by (simp add: Let_def)
qed

lemma Index_not_before:
  assumes "Index a t = - 1" and "r \<noteq> []" and "hd r \<notin> set t"
  shows "Index (a @ r) t = - 1 \<or> int (length a) \<le> Index (a @ r) t"
  using assms(1)
proof (induction a)
  case Nil
  from Index_ge [of r t] show ?case by auto
next
  case (Cons c a)
  from Cons.prems Index_ge [of a t] have np: "\<not> prefix t (c # a)" and nx: "Index a t = - 1"
    by (auto simp: Let_def split: if_splits)
  have "\<not> prefix t (c # a @ r)"
  proof
    assume "prefix t (c # a @ r)"
    then have "prefix t ((c # a) @ r)" by simp
    then consider "prefix t (c # a)" | us where "t = (c # a) @ us" "prefix us r"
      unfolding prefix_append by blast
    then show False
    proof cases
      case 1
      with np show False by simp
    next
      case 2
      show False
      proof (cases us)
        case Nil
        with 2 np show False by simp
      next
        case (Cons u us')
        with 2(2) assms(2) have "hd r = u" by (cases r) auto
        with 2(1) Cons assms(3) show False by simp
      qed
    qed
  qed
  with Cons.IH [OF nx] show ?case by (auto simp: Let_def)
qed

lemma no_space_has_dollar: "p \<in> set spaces \<Longrightarrow> CHR ''$'' \<notin> set p"
  by (auto simp: spaces_def)

lemma leadingSpace_before_dollar:
  assumes "leadingSpace b = 0"
  shows "leadingSpace (b @ CHR ''$'' # r) = 0"
proof -
  have "\<not> prefix p (b @ CHR ''$'' # r)" if p: "p \<in> set spaces" for p
  proof
    assume "prefix p (b @ CHR ''$'' # r)"
    then consider "prefix p b" | us where "p = b @ us" "prefix us (CHR ''$'' # r)"
      unfolding prefix_append by blast
    then show False
    proof cases
      case 1
      with assms p show False by (simp add: leadingSpace_0_iff)
    next
      case 2
      show False
      proof (cases us)
        case Nil
        with 2 have "prefix p b" by simp
        with assms p show False by (simp add: leadingSpace_0_iff)
      next
        case (Cons u us')
        with 2 have "CHR ''$'' \<in> set p" by auto
        with no_space_has_dollar [OF p] show False by simp
      qed
    qed
  qed
  then show ?thesis by (simp add: leadingSpace_0_iff)
qed

lemma select_one_tail:
  assumes "outcome env t (Exec h ''SELECT 1;'' []) = None"
  shows "stmtLoop env h m ''$$'' ''$\<newline>delimiter ;\<newline>SELECT 1;'' t
         = (None, t @ [Exec h ''SELECT 1;'' []])"
proof -
  have a1: "Index ''$\<newline>delimiter ;\<newline>SELECT 1;'' ''delimiter '' = int 2" by code_simp
  have a2: "Index ''$\<newline>delimiter ;\<newline>SELECT 1;'' ''$$'' = - 1 \<or> int 2 \<le> Index ''$\<newline>delimiter ;\<newline>SELECT 1;'' ''$$''" by code_simp
  have a3: "Index ''$\<newline>delimiter ;\<newline>SELECT 1;'' ''\<newline>'' = int 1" by code_simp
  have a4: "TrimSpace (Replace (Replace (take (Suc 1) ''$\<newline>delimiter ;\<newline>SELECT 1;'') ''delimiter '' [] 1) ''\<newline>'' [] (- 1)) = ''$''"
    by code_simp
  have a5: "TrimSpace (drop (Suc 1) ''$\<newline>delimiter ;\<newline>SELECT 1;'') = ''delimiter ;\<newline>SELECT 1;''"
    by code_simp
  have s3: "iteration env h m ''$$'' ''$\<newline>delimiter ;\<newline>SELECT 1;'' t
            = (Continue ''$'' ''delimiter ;\<newline>SELECT 1;'', t)"
    using iteration_directive_branch [OF a1 a2 a3, of env h m t] unfolding a4 a5 .
  have b1: "Index ''delimiter ;\<newline>SELECT 1;'' ''delimiter '' = int 0" by code_simp
  have b2: "Index ''delimiter ;\<newline>SELECT 1;'' ''$'' = - 1 \<or> int 0 \<le> Index ''delimiter ;\<newline>SELECT 1;'' ''$''" by code_simp
  have b3: "Index ''delimiter ;\<newline>SELECT 1;'' ''\<newline>'' = int 11" by code_simp
  have b4: "TrimSpace (Replace (Replace (take (Suc 11) ''delimiter ;\<newline>SELECT 1;'') ''delimiter '' [] 1) ''\<newline>'' [] (- 1)) = '';''"
    by code_simp
  have b5: "TrimSpace (drop (Suc 11) ''delimiter ;\<newline>SELECT 1;'') = ''SELECT 1;''"
    by code_simp
  have s4: "iteration env h m ''$'' ''delimiter ;\<newline>SELECT 1;'' t = (Continue '';'' ''SELECT 1;'', t)"
    using iteration_directive_branch [OF b1 b2 b3, of env h m t] unfolding b4 b5 .
  have c1: "Index ''SELECT 1;'' '';'' = int 8" by code_simp
  have c2: "Index ''SELECT 1;'' ''delimiter '' = - 1 \<or> int 8 < Index ''SELECT 1;'' ''delimiter ''" by code_simp
  have c3: "''SELECT 1;'' = (if '';'' = '';'' then take (Suc 8) ''SELECT 1;'' else take 8 ''SELECT 1;'')" by code_simp
  have c4: "TrimSpace (drop (Suc 8) ''SELECT 1;'') = []" by code_simp
  have s5: "iteration env h m '';'' ''SELECT 1;'' t = (Continue '';'' [], t @ [Exec h ''SELECT 1;'' []])"
    using iteration_statement_branch [OF c1 c2 c3 assms, of m] unfolding c4 by simp
  show ?thesis
    by (simp add: stmtLoop_Continue [OF _ s3] stmtLoop_Continue [OF _ s4]
        stmtLoop_Continue [OF _ s5] stmtLoop_Nil)
qed

text \<open>
  Claim C3. The script \<open>delimiter $$\<close>, line break, a body, \<open>$$\<close>, line break,
  \<open>delimiter ;\<close>, line break, \<open>SELECT 1;\<close> is split into two statements, executed in this
  order: the body without the closing \<open>$$\<close>, then \<open>SELECT 1;\<close>. The body is any text
  that does not begin with white space, in which \<open>$$\<close> occurs only as the terminator, and
  in which the directive token does not occur; both statements are taken to execute
  without error.
\<close>

theorem delimiter_script_two_statements:
  assumes lead: "leadingSpace body = 0"
    and nd: "Index (body @ ''$'') ''$$'' = - 1"
    and ndir: "Index body ''delimiter '' = - 1"
    and ok1: "outcome env t (Exec h body []) = None"
    and ok2: "outcome env (t @ [Exec h body []]) (Exec h ''SELECT 1;'' []) = None"
  shows "stmtLoop env h m '';''
           (TrimSpace (''delimiter $$\<newline>'' @ body @ ''$$\<newline>delimiter ;\<newline>SELECT 1;'')) t
         = (None, t @ [Exec h body [], Exec h ''SELECT 1;'' []])"
proof -
  define rest where "rest = ''$$\<newline>delimiter ;\<newline>SELECT 1;''"
  define S0 where "S0 = ''delimiter $$\<newline>'' @ body @ rest"
  define S1 where "S1 = body @ rest"
  have S0_semi: "S0 = (''delimiter $$\<newline>'' @ body @ ''$$\<newline>delimiter ;\<newline>SELECT 1'') @ '';''"
    by (simp add: S0_def rest_def)
  have S1_semi: "S1 = (body @ ''$$\<newline>delimiter ;\<newline>SELECT 1'') @ '';''"
    by (simp add: S1_def rest_def)
  have S1_dollar: "S1 = body @ CHR ''$'' # ''$\<newline>delimiter ;\<newline>SELECT 1;''"
    by (simp add: S1_def rest_def)
  have "leadingSpace S0 = 0"
    by (simp add: S0_def leadingSpace_def spaces_def)
  moreover have "trailingSpace S0 = 0"
    unfolding S0_semi by (rule trailingSpace_semicolon)
  ultimately have t0: "TrimSpace S0 = S0" by (rule TrimSpace_fix)
  have "leadingSpace S1 = 0"
    unfolding S1_dollar using lead by (rule leadingSpace_before_dollar)
  moreover have "trailingSpace S1 = 0"
    unfolding S1_semi by (rule trailingSpace_semicolon)
  ultimately have t1: "TrimSpace S1 = S1" by (rule TrimSpace_fix)
  have S0_ne: "S0 \<noteq> []" and S1_ne: "S1 \<noteq> []" by (simp_all add: S0_def S1_def rest_def)
  \<comment> \<open>first pass: the directive at the start of the script\<close>
  have a1: "Index S0 ''delimiter '' = int 0" by (simp add: S0_def)
  from Index_ge [of S0 "'';''"] have a2: "Index S0 '';'' = - 1 \<or> int 0 \<le> Index S0 '';''" by auto
  have a3: "Index S0 ''\<newline>'' = int 12" by (simp add: S0_def Let_def)
  have a4: "take (Suc 12) S0 = ''delimiter $$\<newline>''" by (simp add: S0_def)
  have a5: "TrimSpace (Replace (Replace ''delimiter $$\<newline>'' ''delimiter '' [] 1) ''\<newline>'' [] (- 1)) = ''$$''"
    by code_simp
  have a6: "drop (Suc 12) S0 = S1" by (simp add: S0_def S1_def)
  have s1: "iteration env h m '';'' S0 t = (Continue ''$$'' S1, t)"
    using iteration_directive_branch [OF a1 a2 a3, of env h m t] unfolding a4 a5 a6 t1 .
  \<comment> \<open>second pass: the body, up to the first \<open>$$\<close>\<close>
  have b1: "Index S1 ''$$'' = int (length body)"
    using Index_dollars [OF nd, of "''\<newline>delimiter ;\<newline>SELECT 1;''"] by (simp add: S1_def rest_def)
  have "rest \<noteq> []" "hd rest \<notin> set ''delimiter ''" by (simp_all add: rest_def)
  from Index_not_before [OF ndir this]
  have b2': "Index S1 ''delimiter '' = - 1 \<or> int (length body) \<le> Index S1 ''delimiter ''"
    by (simp add: S1_def)
  have "Index S1 ''delimiter '' \<noteq> int (length body)"
  proof
    assume "Index S1 ''delimiter '' = int (length body)"
    from Index_found [OF this] have "prefix ''delimiter '' (drop (length body) S1)" by simp
    then show False by (simp add: S1_def rest_def)
  qed
  with b2' have b2: "Index S1 ''delimiter '' = - 1 \<or> int (length body) < Index S1 ''delimiter ''"
    by auto
  have b3: "body = (if ''$$'' = '';'' then take (Suc (length body)) S1 else take (length body) S1)"
    by (simp add: S1_def)
  have b4: "TrimSpace (drop (Suc (length body)) S1) = ''$\<newline>delimiter ;\<newline>SELECT 1;''"
  proof -
    have "drop (Suc (length body)) S1 = ''$\<newline>delimiter ;\<newline>SELECT 1;''"
      by (simp add: S1_def rest_def)
    moreover have "TrimSpace ''$\<newline>delimiter ;\<newline>SELECT 1;'' = ''$\<newline>delimiter ;\<newline>SELECT 1;''"
      by code_simp
    ultimately show ?thesis by simp
  qed
  have s2: "iteration env h m ''$$'' S1 t
            = (Continue ''$$'' ''$\<newline>delimiter ;\<newline>SELECT 1;'', t @ [Exec h body []])"
    using iteration_statement_branch [OF b1 b2 b3 ok1 S1_ne, of m] unfolding b4 .
  have "stmtLoop env h m '';'' S0 t = (None, (t @ [Exec h body []]) @ [Exec h ''SELECT 1;'' []])"
    unfolding stmtLoop_Continue [OF S0_ne s1] stmtLoop_Continue [OF S1_ne s2]
    by (rule select_one_tail [OF ok2])
  then have "stmtLoop env h m '';'' (TrimSpace S0) t
             = (None, t @ [Exec h body [], Exec h ''SELECT 1;'' []])"
    unfolding t0 by simp
  then show ?thesis unfolding S0_def rest_def by simp
qed

theorem delimiter_script_two_statements_witness:
  "leadingSpace procedureBody = 0
   \<and> Index (procedureBody @ ''$'') ''$$'' = - 1
   \<and> Index procedureBody ''delimiter '' = - 1
   \<and> outcome quiet [] (Exec Main procedureBody []) = None
   \<and> outcome quiet ([] @ [Exec Main procedureBody []]) (Exec Main ''SELECT 1;'' []) = None
   \<and> stmtLoop quiet Main ''001.sql'' '';''
           (TrimSpace (''delimiter $$\<newline>'' @ procedureBody @ ''$$\<newline>delimiter ;\<newline>SELECT 1;'')) []
         = (None, [] @ [Exec Main procedureBody [], Exec Main ''SELECT 1;'' []])"
proof -
  have a: "leadingSpace procedureBody = 0" by code_simp
  have b: "Index (procedureBody @ ''$'') ''$$'' = - 1" by code_simp
  have c: "Index procedureBody ''delimiter '' = - 1" by code_simp
  have d: "outcome quiet [] (Exec Main procedureBody []) = None" by (simp add: quiet_def)
  have e: "outcome quiet ([] @ [Exec Main procedureBody []]) (Exec Main ''SELECT 1;'' []) = None"
    by (simp add: quiet_def)
  from delimiter_script_two_statements [OF a b c d e] a b c d e show ?thesis by (intro conjI)
qed

section \<open>The calls of a migration run\<close>

lemma collect_filter:
  "collect entries acc
   = acc @ map Name (filter (\<lambda>e. \<not> IsDir e \<and> ToLower (Ext (Name e)) = ''.sql'') entries)"
  by (induction entries arbitrary: acc) auto

lemma iteration_trace:
  assumes "iteration env h m d s t = (fl, t')"
  shows "t' = t \<or> (\<exists>stmt. t' = t @ [Exec h stmt []]
                     \<and> ((\<exists>e. fl = Fail e) \<or> outcome env t (Exec h stmt []) = None))"
  using assms unfolding iteration_def Let_def perform_def
  by (auto split: if_splits option.splits)

lemma stmtLoop_trace:
  "stmtLoop env h m d s t = (r, t')
   \<Longrightarrow> \<exists>stmts. t' = t @ map (\<lambda>x. Exec h x []) stmts
              \<and> (r = None \<longrightarrow> succeeded env t (map (\<lambda>x. Exec h x []) stmts))"
proof (induction env h m d s t arbitrary: r t' rule: stmtLoop.induct)
  case (1 env h m d s t)
  show ?case
  proof (cases "s = []")
    case True
    with 1(2) have "t' = t" by (simp add: stmtLoop.simps)
    then show ?thesis by (intro exI [of _ "[]"]) simp
  next
    case False
    obtain fl t1 where it: "iteration env h m d s t = (fl, t1)" by (cases "iteration env h m d s t")
    from iteration_trace [OF it] consider "t1 = t"
      | stmt where "t1 = t @ [Exec h stmt []]"
          "(\<exists>e. fl = Fail e) \<or> outcome env t (Exec h stmt []) = None" by blast
    then obtain pre where pre: "t1 = t @ map (\<lambda>x. Exec h x []) pre"
      "(\<forall>e. fl \<noteq> Fail e) \<longrightarrow> succeeded env t (map (\<lambda>x. Exec h x []) pre)"
    proof cases
      case 1
      show ?thesis by (rule that [of "[]"]) (simp_all add: 1)
    next
      case 2
      show ?thesis by (rule that [of "[stmt]"]) (use 2 in auto)
    qed
    have app: "succeeded env t (a @ b) \<longleftrightarrow> succeeded env t a \<and> succeeded env (t @ a) b" for a b
      by (induction a arbitrary: t) auto
    show ?thesis
    proof (cases fl)
      case (Continue d1 s1)
      from 1(2) False it Continue have "stmtLoop env h m d1 s1 t1 = (r, t')"
        by (subst (asm) stmtLoop.simps) simp
      from 1(1) [OF False it [symmetric] Continue this]
      obtain stmts where st: "t' = t1 @ map (\<lambda>x. Exec h x []) stmts"
        "r = None \<longrightarrow> succeeded env t1 (map (\<lambda>x. Exec h x []) stmts)" by blast
      show ?thesis
        by (rule exI [of _ "pre @ stmts"]) (use st pre Continue in \<open>auto simp: app\<close>)
    next
      case Break
      from 1(2) False it Break have "r = None" "t' = t1"
        by (subst (asm) stmtLoop.simps, simp)+
      with pre Break show ?thesis by (intro exI [of _ pre]) simp
    next
      case (Fail e)
      from 1(2) False it Fail have "r = Some e" "t' = t1"
        by (subst (asm) stmtLoop.simps, simp)+
      with pre show ?thesis by (intro exI [of _ pre]) simp
    qed
  qed
qed


lemma migrate_cases:
  assumes "migrate env h fsys dir m t = (r, t')"
  obtains (looked)
    "t' = t @ [QueryRow h lookupQuery [VString m]]"
      "r = None \<longleftrightarrow> (\<exists>src. column env t (QueryRow h lookupQuery [VString m]) = Inr src
                        \<and> Bool_Scan False src = Inr True)"
      "\<not> (\<exists>src. column env t (QueryRow h lookupQuery [VString m]) = Inr src
                        \<and> Bool_Scan False src = Inr False)"
  | (unread) e where "t' = t @ [QueryRow h lookupQuery [VString m], ReadFile (Join env dir m)]"
      "readFile fsys (Join env dir m) = Inl e"
      "r = Some (Wrap (''reading file '' @ Join env dir m) e)"
  | (failed) s e stmts where "readFile fsys (Join env dir m) = Inr s"
      "stmtLoop env h m '';'' (TrimSpace s)
         (t @ [QueryRow h lookupQuery [VString m], ReadFile (Join env dir m)]) = (Some e, t')"
      "t' = t @ [QueryRow h lookupQuery [VString m], ReadFile (Join env dir m)]
              @ map (\<lambda>x. Exec h x []) stmts"
      "r = Some e"
  | (inserted) s stmts where "readFile fsys (Join env dir m) = Inr s"
      "stmtLoop env h m '';'' (TrimSpace s)
         (t @ [QueryRow h lookupQuery [VString m], ReadFile (Join env dir m)])
       = (None, t @ [QueryRow h lookupQuery [VString m], ReadFile (Join env dir m)]
                  @ map (\<lambda>x. Exec h x []) stmts)"
      "succeeded env (t @ [QueryRow h lookupQuery [VString m], ReadFile (Join env dir m)])
         (map (\<lambda>x. Exec h x []) stmts)"
      "t' = t @ [QueryRow h lookupQuery [VString m], ReadFile (Join env dir m)]
              @ map (\<lambda>x. Exec h x []) stmts @ [Exec h insertQuery [VString m]]"
      "r = (case outcome env (t @ [QueryRow h lookupQuery [VString m], ReadFile (Join env dir m)]
                                @ map (\<lambda>x. Exec h x []) stmts) (Exec h insertQuery [VString m]) of
              None \<Rightarrow> None
            | Some e \<Rightarrow> Some (Wrap (''inserting migration record '' @ [CHR 0x27] @ m @ [CHR 0x27]) e))"
proof -
  let ?L = "QueryRow h lookupQuery [VString m]"
  let ?p = "Join env dir m"
  let ?t2 = "t @ [?L, ReadFile ?p]"
  show thesis
  proof (cases "\<exists>src. column env t ?L = Inr src \<and> Bool_Scan False src = Inr False")
    case False
    with assms have "t' = t @ [?L]"
      "r = None \<longleftrightarrow> (\<exists>src. column env t ?L = Inr src \<and> Bool_Scan False src = Inr True)"
      unfolding migrate_def scanRow_def
      by (auto split: sum.splits if_splits)
    with False show thesis by (intro looked)
  next
    case True
    then obtain src where src: "column env t ?L = Inr src" "Bool_Scan False src = Inr False" by blast
    show thesis
    proof (cases "readFile fsys ?p")
      case (Inl e)
      with assms src have "t' = t @ [?L, ReadFile ?p]" "r = Some (Wrap (''reading file '' @ ?p) e)"
        unfolding migrate_def scanRow_def Let_def by auto
      with Inl show thesis by (intro unread [of e]) simp_all
    next
      case (Inr s)
      obtain r3 t3 where sl: "stmtLoop env h m '';'' (TrimSpace s) ?t2 = (r3, t3)"
        by (cases "stmtLoop env h m '';'' (TrimSpace s) ?t2")
      from stmtLoop_trace [OF sl] obtain stmts where st: "t3 = ?t2 @ map (\<lambda>x. Exec h x []) stmts"
        "r3 = None \<longrightarrow> succeeded env ?t2 (map (\<lambda>x. Exec h x []) stmts)" by blast
      show thesis
      proof (cases r3)
        case (Some e)
        with assms src Inr sl have "r = Some e" "t' = t3"
          unfolding migrate_def scanRow_def Let_def by auto
        with Inr sl st Some show thesis by (intro failed [of s e stmts]) simp_all
      next
        case None
        with assms src Inr sl have "t' = t3 @ [Exec h insertQuery [VString m]]"
          "r = (case outcome env t3 (Exec h insertQuery [VString m]) of
                  None \<Rightarrow> None
                | Some e \<Rightarrow> Some (Wrap (''inserting migration record '' @ [CHR 0x27] @ m @ [CHR 0x27]) e))"
          unfolding migrate_def scanRow_def Let_def perform_def
          by (auto split: option.splits)
        with Inr sl st None show thesis by (intro inserted [of s stmts]) simp_all
      qed
    qed
  qed
qed

lemma map_filter_execs [simp]:
  "List.map_filter lookedUp (map (\<lambda>x. Exec h x []) stmts) = []"
  "List.map_filter recorded (map (\<lambda>x. Exec h x []) stmts) = []"
  "List.map_filter fileRead (map (\<lambda>x. Exec h x []) stmts) = []"
  by (induction stmts) simp_all

lemma map_filter_append: "List.map_filter f (xs @ ys) = List.map_filter f xs @ List.map_filter f ys"
  by (simp add: List.map_filter_def)

lemma migrate_observed:
  assumes "migrate env h fsys dir m t = (r, t')"
  shows "\<exists>new. t' = t @ new \<and> List.map_filter lookedUp new = [m]
           \<and> set (List.map_filter fileRead new) \<subseteq> {Join env dir m}
           \<and> set (List.map_filter recorded new) \<subseteq> {m}"
  using assms
proof (cases rule: migrate_cases)
  case looked
  then show ?thesis by simp
next
  case (unread e)
  then show ?thesis by simp
next
  case (failed s e stmts)
  then show ?thesis by (simp add: map_filter_append)
next
  case (inserted s stmts)
  then show ?thesis by (simp add: map_filter_append)
qed

lemma migrationsLoop_observed:
  "migrationsLoop env h fsys dir ms t = (r, t')
   \<Longrightarrow> \<exists>new. t' = t @ new \<and> prefix (List.map_filter lookedUp new) ms
           \<and> (r = None \<longrightarrow> List.map_filter lookedUp new = ms)
           \<and> set (List.map_filter fileRead new) \<subseteq> Join env dir ` set ms
           \<and> set (List.map_filter recorded new) \<subseteq> set ms"
proof (induction ms arbitrary: t r t')
  case Nil
  then show ?case by simp
next
  case (Cons m ms)
  obtain r1 t1 where m1: "migrate env h fsys dir m t = (r1, t1)" by (cases "migrate env h fsys dir m t")
  from migrate_observed [OF m1] obtain new1 where n1: "t1 = t @ new1"
    "List.map_filter lookedUp new1 = [m]"
    "set (List.map_filter fileRead new1) \<subseteq> {Join env dir m}"
    "set (List.map_filter recorded new1) \<subseteq> {m}" by blast
  show ?case
  proof (cases r1)
    case (Some e)
    with Cons.prems m1 have "r = Some e" "t' = t1" by simp_all
    with n1 show ?thesis by (intro exI [of _ new1]) auto
  next
    case None
    with Cons.prems m1 have "migrationsLoop env h fsys dir ms t1 = (r, t')" by simp
    from Cons.IH [OF this] obtain new2 where n2: "t' = t1 @ new2"
      "prefix (List.map_filter lookedUp new2) ms"
      "r = None \<longrightarrow> List.map_filter lookedUp new2 = ms"
      "set (List.map_filter fileRead new2) \<subseteq> Join env dir ` set ms"
      "set (List.map_filter recorded new2) \<subseteq> set ms" by blast
    show ?thesis
      by (rule exI [of _ "new1 @ new2"]) (use n1 n2 in \<open>auto simp: map_filter_append\<close>)
  qed
qed

text \<open>
  Claim C7. Let the directory listing be any list of entries. The names the runner works
  on are in increasing byte order, and they are exactly the names of the entries that
  are not directories and whose extension, in lower case, is \<open>.sql\<close>. Any other order of
  the same listing gives the same names in the same order. In the run, the ledger
  look-ups are made for these names in this order (for all of them when the run
  succeeds), every file read is the file of one of these names, and every ledger
  insertion is for one of these names.
\<close>

theorem migration_files_chosen_and_ordered:
  assumes "migrationsFS d = Some fsys" and "readDir fsys (migrationsDir d) = Inr entries"
  shows "sorted (sort (collect entries []))
    \<and> mset (sort (collect entries []))
        = image_mset Name (filter_mset (\<lambda>e. \<not> IsDir e \<and> ToLower (Ext (Name e)) = ''.sql'') (mset entries))
    \<and> (\<forall>entries'. mset entries' = mset entries
          \<longrightarrow> sort (collect entries' []) = sort (collect entries []))
    \<and> (\<exists>new. snd (runMigrations env d t) = t @ new
          \<and> prefix (List.map_filter lookedUp new) (sort (collect entries []))
          \<and> (fst (runMigrations env d t) = Return None
                \<longrightarrow> List.map_filter lookedUp new = sort (collect entries []))
          \<and> set (List.map_filter fileRead new)
                \<subseteq> Join env (migrationsDir d) ` set (sort (collect entries []))
          \<and> set (List.map_filter recorded new) \<subseteq> set (sort (collect entries [])))"
proof (intro conjI allI impI)
  show "sorted (sort (collect entries []))" by simp
  show "mset (sort (collect entries []))
        = image_mset Name (filter_mset (\<lambda>e. \<not> IsDir e \<and> ToLower (Ext (Name e)) = ''.sql'') (mset entries))"
    by (simp add: collect_filter)
next
  fix entries' :: "DirEntry list"
  assume "mset entries' = mset entries"
  then have "mset (sort (collect entries [])) = mset (collect entries' [])"
    by (simp add: collect_filter)
  then show "sort (collect entries' []) = sort (collect entries [])"
    by (rule properties_for_sort) simp
next
  let ?ms = "sort (collect entries [])"
  let ?dir = "migrationsDir d"
  show "\<exists>new. snd (runMigrations env d t) = t @ new
          \<and> prefix (List.map_filter lookedUp new) ?ms
          \<and> (fst (runMigrations env d t) = Return None \<longrightarrow> List.map_filter lookedUp new = ?ms)
          \<and> set (List.map_filter fileRead new) \<subseteq> Join env ?dir ` set ?ms
          \<and> set (List.map_filter recorded new) \<subseteq> set ?ms"
  proof (cases "db d")
    case None
    then have "runMigrations env d t = (Panic, t)" by (simp add: runMigrations_def)
    then show ?thesis by (intro exI [of _ "[]"]) simp
  next
    case (Some h)
    show ?thesis
    proof (cases "outcome env t (Exec h createTable [])")
      case (Some err)
      with \<open>db d = Some h\<close>
      have "runMigrations env d t
            = (Return (Some (Wrap ''creating migrations table'' err)), t @ [Exec h createTable []])"
        by (simp add: runMigrations_def perform_def)
      then show ?thesis by (intro exI [of _ "[Exec h createTable []]"]) simp
    next
      case None
      let ?t1 = "t @ [Exec h createTable [], ReadDir ?dir]"
      obtain r t' where ml: "migrationsLoop env h fsys ?dir ?ms ?t1 = (r, t')"
        by (cases "migrationsLoop env h fsys ?dir ?ms ?t1")
      with None \<open>db d = Some h\<close> assms have run: "runMigrations env d t = (Return r, t')"
        by (simp add: runMigrations_def perform_def)
      from migrationsLoop_observed [OF ml] obtain new where new: "t' = ?t1 @ new"
        "prefix (List.map_filter lookedUp new) ?ms"
        "r = None \<longrightarrow> List.map_filter lookedUp new = ?ms"
        "set (List.map_filter fileRead new) \<subseteq> Join env ?dir ` set ?ms"
        "set (List.map_filter recorded new) \<subseteq> set ?ms" by blast
      show ?thesis
        by (rule exI [of _ "[Exec h createTable [], ReadDir ?dir] @ new"])
           (use run new in \<open>simp add: map_filter_append\<close>)
    qed
  qed
qed

theorem migration_files_chosen_and_ordered_witness:
  "migrationsFS sampleDB = Some sampleFS
   \<and> readDir sampleFS (migrationsDir sampleDB) = Inr sampleEntries
   \<and> sort (collect sampleEntries []) = [''01_y.SQL'', ''02_x.sql'']
   \<and> sorted (sort (collect sampleEntries []))
   \<and> mset (rev sampleEntries) = mset sampleEntries
   \<and> sort (collect (rev sampleEntries) []) = sort (collect sampleEntries [])
   \<and> fst (runMigrations quiet sampleDB []) = Return None
   \<and> List.map_filter lookedUp (snd (runMigrations quiet sampleDB [])) = [''01_y.SQL'', ''02_x.sql'']
   \<and> (\<exists>new. snd (runMigrations quiet sampleDB []) = [] @ new
          \<and> prefix (List.map_filter lookedUp new) (sort (collect sampleEntries []))
          \<and> (fst (runMigrations quiet sampleDB []) = Return None
                \<longrightarrow> List.map_filter lookedUp new = sort (collect sampleEntries []))
          \<and> set (List.map_filter fileRead new)
                \<subseteq> Join quiet (migrationsDir sampleDB) ` set (sort (collect sampleEntries []))
          \<and> set (List.map_filter recorded new) \<subseteq> set (sort (collect sampleEntries [])))"
proof -
  have a: "migrationsFS sampleDB = Some sampleFS" by (simp add: sampleDB_def)
  have b: "readDir sampleFS (migrationsDir sampleDB) = Inr sampleEntries"
    by (simp add: sampleDB_def sampleFS_def)
  have c: "sort (collect sampleEntries []) = [''01_y.SQL'', ''02_x.sql'']" by code_simp
  have d: "mset (rev sampleEntries) = mset sampleEntries" by simp
  have e: "fst (runMigrations quiet sampleDB []) = Return None" by code_simp
  have f: "List.map_filter lookedUp (snd (runMigrations quiet sampleDB []))
           = [''01_y.SQL'', ''02_x.sql'']" by code_simp
  note inst = migration_files_chosen_and_ordered [OF a b, of quiet "[]"]
  from inst have g: "sorted (sort (collect sampleEntries []))" by (rule conjunct1)
  from inst d have h: "sort (collect (rev sampleEntries) []) = sort (collect sampleEntries [])"
    by blast
  from inst have i: "\<exists>new. snd (runMigrations quiet sampleDB []) = [] @ new
          \<and> prefix (List.map_filter lookedUp new) (sort (collect sampleEntries []))
          \<and> (fst (runMigrations quiet sampleDB []) = Return None
                \<longrightarrow> List.map_filter lookedUp new = sort (collect sampleEntries []))
          \<and> set (List.map_filter fileRead new)
                \<subseteq> Join quiet (migrationsDir sampleDB) ` set (sort (collect sampleEntries []))
          \<and> set (List.map_filter recorded new) \<subseteq> set (sort (collect sampleEntries []))"
    by (elim conjE)
  from a b c d e f g h i show ?thesis by (intro conjI)
qed

section \<open>The ledger record of a file\<close>

lemma migrationsLoop_all_applied:
  assumes "\<And>t' m'. m' \<in> set ms \<Longrightarrow> column env t' (QueryRow h lookupQuery [VString m']) = Inr (VBytes [1])"
  shows "migrationsLoop env h fsys dir ms t
         = (None, t @ map (\<lambda>m'. QueryRow h lookupQuery [VString m']) ms)"
  using assms
proof (induction ms arbitrary: t)
  case Nil
  then show ?case by simp
next
  case (Cons m ms)
  have "migrate env h fsys dir m t = (None, t @ [QueryRow h lookupQuery [VString m]])"
    using Cons.prems [of m t] by (simp add: migrate_def scanRow_def)
  with Cons.IH [of "t @ [QueryRow h lookupQuery [VString m]]"] Cons.prems show ?case by simp
qed

text \<open>
  Claim C8, for one migration file \<open>m\<close>, processed after the calls \<open>t\<close>.
  If the ledger look-up answers \<open>b'1'\<close>, the look-up is the only call made for the file:
  no statement is executed and nothing is inserted. If the insertion of \<open>m\<close> into the
  ledger is among the calls made for the file, then the file was read, the splitting
  loop ended without error, every statement it executed succeeded, and the insertion is
  the last call, after all of them. If the file is not recorded as run and reading it
  fails, or splitting it or executing one of its statements fails, the run fails and
  no insertion is made. A failure for this file ends the whole run: no later file is
  looked at. When every look-up answers \<open>b'1'\<close>, a run only makes the look-ups.
\<close>

theorem ledger_record_only_after_statements:
  "(column env t (QueryRow h lookupQuery [VString m]) = Inr (VBytes [1])
      \<longrightarrow> migrate env h fsys dir m t = (None, t @ [QueryRow h lookupQuery [VString m]]))
   \<and> (Exec h insertQuery [VString m] \<in> set (drop (length t) (snd (migrate env h fsys dir m t)))
      \<longrightarrow> (\<exists>s stmts. readFile fsys (Join env dir m) = Inr s
             \<and> stmtLoop env h m '';'' (TrimSpace s)
                  (t @ [QueryRow h lookupQuery [VString m], ReadFile (Join env dir m)])
                = (None, t @ [QueryRow h lookupQuery [VString m], ReadFile (Join env dir m)]
                           @ map (\<lambda>x. Exec h x []) stmts)
             \<and> succeeded env (t @ [QueryRow h lookupQuery [VString m], ReadFile (Join env dir m)])
                  (map (\<lambda>x. Exec h x []) stmts)
             \<and> snd (migrate env h fsys dir m t)
                = t @ [QueryRow h lookupQuery [VString m], ReadFile (Join env dir m)]
                    @ map (\<lambda>x. Exec h x []) stmts @ [Exec h insertQuery [VString m]]))
   \<and> ((\<exists>src. column env t (QueryRow h lookupQuery [VString m]) = Inr src
              \<and> Bool_Scan False src = Inr False)
       \<and> ((\<exists>e. readFile fsys (Join env dir m) = Inl e)
          \<or> (\<exists>s e. readFile fsys (Join env dir m) = Inr s
                 \<and> fst (stmtLoop env h m '';'' (TrimSpace s)
                          (t @ [QueryRow h lookupQuery [VString m], ReadFile (Join env dir m)])) = Some e))
      \<longrightarrow> fst (migrate env h fsys dir m t) \<noteq> None
          \<and> Exec h insertQuery [VString m] \<notin> set (drop (length t) (snd (migrate env h fsys dir m t))))
   \<and> (fst (migrate env h fsys dir m t) \<noteq> None
      \<longrightarrow> migrationsLoop env h fsys dir (m # rest) t = migrate env h fsys dir m t)
   \<and> ((\<forall>t' m'. m' \<in> set ms \<longrightarrow> column env t' (QueryRow h lookupQuery [VString m']) = Inr (VBytes [1]))
      \<longrightarrow> migrationsLoop env h fsys dir ms t
          = (None, t @ map (\<lambda>m'. QueryRow h lookupQuery [VString m']) ms))"
proof -
  let ?L = "QueryRow h lookupQuery [VString m]"
  let ?R = "ReadFile (Join env dir m)"
  let ?I = "Exec h insertQuery [VString m]"
  obtain r t' where mg: "migrate env h fsys dir m t = (r, t')" by (cases "migrate env h fsys dir m t")
  have notI: "?I \<notin> set (map (\<lambda>x. Exec h x []) stmts)" for stmts by auto
  have A: "column env t ?L = Inr (VBytes [1]) \<longrightarrow> migrate env h fsys dir m t = (None, t @ [?L])"
    by (simp add: migrate_def scanRow_def)
  have B: "?I \<in> set (drop (length t) (snd (migrate env h fsys dir m t)))
      \<longrightarrow> (\<exists>s stmts. readFile fsys (Join env dir m) = Inr s
             \<and> stmtLoop env h m '';'' (TrimSpace s) (t @ [?L, ?R])
                = (None, t @ [?L, ?R] @ map (\<lambda>x. Exec h x []) stmts)
             \<and> succeeded env (t @ [?L, ?R]) (map (\<lambda>x. Exec h x []) stmts)
             \<and> snd (migrate env h fsys dir m t)
                = t @ [?L, ?R] @ map (\<lambda>x. Exec h x []) stmts @ [?I])"
    using mg
  proof (cases rule: migrate_cases)
    case looked
    with mg show ?thesis by simp
  next
    case (unread e)
    with mg show ?thesis by simp
  next
    case (failed s e stmts)
    with mg notI [of stmts] show ?thesis by simp
  next
    case (inserted s stmts)
    with mg show ?thesis by auto
  qed
  have C: "(\<exists>src. column env t ?L = Inr src \<and> Bool_Scan False src = Inr False)
       \<and> ((\<exists>e. readFile fsys (Join env dir m) = Inl e)
          \<or> (\<exists>s e. readFile fsys (Join env dir m) = Inr s
                 \<and> fst (stmtLoop env h m '';'' (TrimSpace s) (t @ [?L, ?R])) = Some e))
      \<longrightarrow> fst (migrate env h fsys dir m t) \<noteq> None
          \<and> ?I \<notin> set (drop (length t) (snd (migrate env h fsys dir m t)))"
    using mg
  proof (cases rule: migrate_cases)
    case looked
    then show ?thesis by blast
  next
    case (unread e)
    with mg show ?thesis by simp
  next
    case (failed s e stmts)
    with mg notI [of stmts] show ?thesis by simp
  next
    case (inserted s stmts)
    with mg show ?thesis by auto
  qed
  have D: "fst (migrate env h fsys dir m t) \<noteq> None
      \<longrightarrow> migrationsLoop env h fsys dir (m # rest) t = migrate env h fsys dir m t"
    using mg by auto
  have E: "(\<forall>t' m'. m' \<in> set ms \<longrightarrow> column env t' (QueryRow h lookupQuery [VString m']) = Inr (VBytes [1]))
      \<longrightarrow> migrationsLoop env h fsys dir ms t
          = (None, t @ map (\<lambda>m'. QueryRow h lookupQuery [VString m']) ms)"
    using migrationsLoop_all_applied [of ms env h fsys dir t] by blast
  from A B C D E show ?thesis by (intro conjI)
qed

theorem ledger_record_only_after_statements_witness:
  "column applied [] (QueryRow Main lookupQuery [VString ''02_x.sql'']) = Inr (VBytes [1])
   \<and> migrate applied Main sampleFS ''migrations'' ''02_x.sql'' []
       = (None, [] @ [QueryRow Main lookupQuery [VString ''02_x.sql'']])
   \<and> Exec Main insertQuery [VString ''02_x.sql'']
       \<in> set (drop (length ([] :: call list)) (snd (migrate quiet Main sampleFS ''migrations'' ''02_x.sql'' [])))
   \<and> (\<exists>s stmts. readFile sampleFS (Join quiet ''migrations'' ''02_x.sql'') = Inr s
         \<and> stmtLoop quiet Main ''02_x.sql'' '';'' (TrimSpace s)
              ([] @ [QueryRow Main lookupQuery [VString ''02_x.sql''],
                     ReadFile (Join quiet ''migrations'' ''02_x.sql'')])
            = (None, [] @ [QueryRow Main lookupQuery [VString ''02_x.sql''],
                           ReadFile (Join quiet ''migrations'' ''02_x.sql'')]
                       @ map (\<lambda>x. Exec Main x []) stmts)
         \<and> succeeded quiet ([] @ [QueryRow Main lookupQuery [VString ''02_x.sql''],
                                  ReadFile (Join quiet ''migrations'' ''02_x.sql'')])
              (map (\<lambda>x. Exec Main x []) stmts)
         \<and> snd (migrate quiet Main sampleFS ''migrations'' ''02_x.sql'' [])
            = [] @ [QueryRow Main lookupQuery [VString ''02_x.sql''],
                    ReadFile (Join quiet ''migrations'' ''02_x.sql'')]
                @ map (\<lambda>x. Exec Main x []) stmts @ [Exec Main insertQuery [VString ''02_x.sql'']])
   \<and> column (refusing (Exec Main ''UPDATE y SET x = 0;'' [])) []
        (QueryRow Main lookupQuery [VString ''02_x.sql'']) = Inr (VBytes [0])
   \<and> Bool_Scan False (VBytes [0]) = Inr False
   \<and> readFile sampleFS (Join (refusing (Exec Main ''UPDATE y SET x = 0;'' [])) ''migrations'' ''02_x.sql'')
       = Inr ''ALTER TABLE y ADD x INT;\<newline>UPDATE y SET x = 0;\<newline>''
   \<and> fst (stmtLoop (refusing (Exec Main ''UPDATE y SET x = 0;'' [])) Main ''02_x.sql'' '';''
             (TrimSpace ''ALTER TABLE y ADD x INT;\<newline>UPDATE y SET x = 0;\<newline>'')
             ([] @ [QueryRow Main lookupQuery [VString ''02_x.sql''],
                    ReadFile (Join (refusing (Exec Main ''UPDATE y SET x = 0;'' [])) ''migrations'' ''02_x.sql'')]))
       = Some (Wrap ''executing migration statement'' (Cause ''refused''))
   \<and> fst (migrate (refusing (Exec Main ''UPDATE y SET x = 0;'' [])) Main sampleFS ''migrations'' ''02_x.sql'' [])
       \<noteq> None
   \<and> Exec Main insertQuery [VString ''02_x.sql'']
       \<notin> set (drop (length ([] :: call list))
                (snd (migrate (refusing (Exec Main ''UPDATE y SET x = 0;'' [])) Main sampleFS
                        ''migrations'' ''02_x.sql'' [])))
   \<and> migrationsLoop (refusing (Exec Main ''UPDATE y SET x = 0;'' [])) Main sampleFS ''migrations''
         (''02_x.sql'' # [''03_z.sql'']) []
       = migrate (refusing (Exec Main ''UPDATE y SET x = 0;'' [])) Main sampleFS ''migrations'' ''02_x.sql'' []
   \<and> migrationsLoop applied Main sampleFS ''migrations'' [''01_y.SQL'', ''02_x.sql''] []
       = (None, [] @ map (\<lambda>m'. QueryRow Main lookupQuery [VString m']) [''01_y.SQL'', ''02_x.sql''])"
proof -
  let ?c = "Exec Main ''UPDATE y SET x = 0;'' []"
  let ?s = "''ALTER TABLE y ADD x INT;\<newline>UPDATE y SET x = 0;\<newline>''"
  note run = ledger_record_only_after_statements
    [where env = applied and t = "[]" and h = Main and m = "''02_x.sql''" and fsys = sampleFS
       and dir = "''migrations''" and rest = "[]" and ms = "[''01_y.SQL'', ''02_x.sql'']"]
  note fresh = ledger_record_only_after_statements
    [where env = quiet and t = "[]" and h = Main and m = "''02_x.sql''" and fsys = sampleFS
       and dir = "''migrations''" and rest = "[]" and ms = "[]"]
  note broken = ledger_record_only_after_statements
    [where env = "refusing ?c" and t = "[]" and h = Main and m = "''02_x.sql''" and fsys = sampleFS
       and dir = "''migrations''" and rest = "[''03_z.sql'']" and ms = "[]"]
  have a1: "column applied [] (QueryRow Main lookupQuery [VString ''02_x.sql'']) = Inr (VBytes [1])"
    by (simp add: applied_def quiet_def)
  note a2 = run [THEN conjunct1, THEN mp, OF a1]
  have b1: "Exec Main insertQuery [VString ''02_x.sql'']
       \<in> set (drop (length ([] :: call list)) (snd (migrate quiet Main sampleFS ''migrations'' ''02_x.sql'' [])))"
    by code_simp
  note b2 = fresh [THEN conjunct2, THEN conjunct1, THEN mp, OF b1]
  have c1: "column (refusing ?c) [] (QueryRow Main lookupQuery [VString ''02_x.sql'']) = Inr (VBytes [0])"
    by (simp add: refusing_def quiet_def)
  have c2: "Bool_Scan False (VBytes [0]) = Inr False" by simp
  have c3: "readFile sampleFS (Join (refusing ?c) ''migrations'' ''02_x.sql'') = Inr ?s"
    by (simp add: refusing_def quiet_def sampleFS_def)
  have c4: "fst (stmtLoop (refusing ?c) Main ''02_x.sql'' '';'' (TrimSpace ?s)
             ([] @ [QueryRow Main lookupQuery [VString ''02_x.sql''],
                    ReadFile (Join (refusing ?c) ''migrations'' ''02_x.sql'')]))
       = Some (Wrap ''executing migration statement'' (Cause ''refused''))"
    by code_simp
  from c1 c2 c3 c4
  have c5: "(\<exists>src. column (refusing ?c) [] (QueryRow Main lookupQuery [VString ''02_x.sql'']) = Inr src
              \<and> Bool_Scan False src = Inr False)
       \<and> ((\<exists>e. readFile sampleFS (Join (refusing ?c) ''migrations'' ''02_x.sql'') = Inl e)
          \<or> (\<exists>s e. readFile sampleFS (Join (refusing ?c) ''migrations'' ''02_x.sql'') = Inr s
                 \<and> fst (stmtLoop (refusing ?c) Main ''02_x.sql'' '';'' (TrimSpace s)
                          ([] @ [QueryRow Main lookupQuery [VString ''02_x.sql''],
                                 ReadFile (Join (refusing ?c) ''migrations'' ''02_x.sql'')])) = Some e))"
    by blast
  note c6 = broken [THEN conjunct2, THEN conjunct2, THEN conjunct1, THEN mp, OF c5]
  note d = broken [THEN conjunct2, THEN conjunct2, THEN conjunct2, THEN conjunct1, THEN mp,
                   OF c6 [THEN conjunct1]]
  have e1: "\<forall>t' m'. m' \<in> set [''01_y.SQL'', ''02_x.sql'']
              \<longrightarrow> column applied t' (QueryRow Main lookupQuery [VString m']) = Inr (VBytes [1])"
    by (simp add: applied_def quiet_def)
  note e2 = run [THEN conjunct2, THEN conjunct2, THEN conjunct2, THEN conjunct2, THEN mp, OF e1]
  show ?thesis
    by (intro conjI a1 a2 b1 b2 c1 c2 c3 c4 c6 [THEN conjunct1] c6 [THEN conjunct2] d e2)
qed

section \<open>What opening and closing do to the connection\<close>

lemma dropExisting_trace:
  "\<exists>new. snd (dropExistingDatabaseIfExist env a n t) = t @ new \<and> filter migrationWork new = []
         \<and> Open Main x \<notin> set new"
  unfolding dropExistingDatabaseIfExist_def perform_def
  by (auto split: option.splits)

lemma createDatabase_trace:
  "\<exists>new. snd (createDatabaseIfNotExist env a n t) = t @ new \<and> filter migrationWork new = []
         \<and> Open Main x \<notin> set new"
  unfolding createDatabaseIfNotExist_def perform_def
  by (auto split: option.splits)

lemma dropExisting_first_call:
  "\<exists>rest. snd (dropExistingDatabaseIfExist env a n t) = t @ Open Admin a # rest"
  unfolding dropExistingDatabaseIfExist_def perform_def
  by (auto split: option.splits)

lemma dropExisting_statement:
  "Exec Admin (''DROP DATABASE IF EXISTS '' @ n @ '';'') []
     \<in> set (drop (length t) (snd (dropExistingDatabaseIfExist env a n t)))
   \<longleftrightarrow> outcome env t (Open Admin a) = None \<and> outcome env (t @ [Open Admin a]) (Ping Admin) = None"
  unfolding dropExistingDatabaseIfExist_def perform_def
  by (auto split: option.splits)

lemma configure_keeps_dsn:
  assumes "\<And>opt x. opt \<in> set options \<Longrightarrow> dsn (opt x) = dsn x"
  shows "dsn (configure cfg dsnArg options) = dsnArg"
proof -
  have "dsn (foldl (\<lambda>d opt. opt d) d0 options) = dsn d0" for d0
    using assms by (induction options arbitrary: d0) auto
  then show ?thesis by (simp add: configure_def)
qed

lemma options_keep_dsn:
  "dsn (AutoCreateDB x) = dsn x" "dsn (DropExistingDB x) = dsn x"
  "dsn (WithMigrations fsys dir x) = dsn x" "dsn (DropDBOnClose x) = dsn x"
  by (simp_all add: AutoCreateDB_def DropExistingDB_def WithMigrations_def DropDBOnClose_def)

lemma connect_never_both:
  assumes "NewDB_connect env d dsnArg t = (Return (dopt, eopt), t')"
  shows "dopt = None \<longleftrightarrow> eopt \<noteq> None"
proof (cases "outcome env t (Open Main dsnArg)")
  case (Some e)
  then have "NewDB_connect env d dsnArg t
             = (Return (None, Some (Wrap ''opening database'' e)), t @ [Open Main dsnArg])"
    by (simp add: NewDB_connect_def perform_def)
  with assms show ?thesis by auto
next
  case None
  note opened = this
  show ?thesis
  proof (cases "outcome env (t @ [Open Main dsnArg]) (Ping Main)")
    case (Some e)
    with opened have "NewDB_connect env d dsnArg t
             = (Return (None, Some e), t @ [Open Main dsnArg, Ping Main, Close Main])"
      by (simp add: NewDB_connect_def perform_def)
    with assms show ?thesis by auto
  next
    case None
    with assms opened show ?thesis
      by (auto simp: NewDB_connect_def perform_def Let_def
            split: option.splits ret.splits prod.splits if_splits)
  qed
qed

lemma connect_result_handle:
  "NewDB_connect env d dsnArg t = (Return (Some d', eopt), t') \<Longrightarrow> d' = d\<lparr>db := Some Main\<rparr>"
  unfolding NewDB_connect_def perform_def Let_def
  by (auto split: option.splits ret.splits prod.splits if_splits)

lemma NewDB_parts:
  assumes "ParseDSN env dsnArg = Inr cfg"
  shows "(\<exists>e new. NewDB env dsnArg options t = (Return (None, Some e), t @ new)
            \<and> filter migrationWork new = [] \<and> Open Main dsnArg \<notin> set new)
         \<or> (\<exists>new. NewDB env dsnArg options t = NewDB_connect env (configure cfg dsnArg options) dsnArg (t @ new)
            \<and> filter migrationWork new = [] \<and> Open Main dsnArg \<notin> set new)"
proof -
  let ?d = "configure cfg dsnArg options"
  let ?a = "FormatDSN env (cfg\<lparr>DBName := []\<rparr>)"
  obtain e1 t1 where p1: "(if dropExisting ?d then dropExistingDatabaseIfExist env ?a (name ?d) t
                           else (None, t)) = (e1, t1)"
    by (cases "if dropExisting ?d then dropExistingDatabaseIfExist env ?a (name ?d) t else (None, t)")
  obtain new1 where n1: "t1 = t @ new1" "filter migrationWork new1 = []" "Open Main dsnArg \<notin> set new1"
  proof (cases "dropExisting ?d")
    case True
    with p1 dropExisting_trace [of env ?a "name ?d" t dsnArg] that show ?thesis by auto
  next
    case False
    with p1 that [of "[]"] show ?thesis by simp
  qed
  obtain e2 t2 where p2: "(if autoCreate ?d then createDatabaseIfNotExist env ?a (name ?d) t1
                           else (None, t1)) = (e2, t2)"
    by (cases "if autoCreate ?d then createDatabaseIfNotExist env ?a (name ?d) t1 else (None, t1)")
  obtain new2 where n2: "t2 = t1 @ new2" "filter migrationWork new2 = []" "Open Main dsnArg \<notin> set new2"
  proof (cases "autoCreate ?d")
    case True
    with p2 createDatabase_trace [of env ?a "name ?d" t1 dsnArg] that show ?thesis by auto
  next
    case False
    with p2 that [of "[]"] show ?thesis by simp
  qed
  show ?thesis
  proof (cases e1)
    case (Some err)
    with assms p1 have "NewDB env dsnArg options t
                        = (Return (None, Some (Wrap ''dropping existing database'' err)), t1)"
      by (simp add: NewDB_def Let_def)
    with n1 show ?thesis by auto
  next
    case None
    show ?thesis
    proof (cases e2)
      case (Some err)
      with assms p1 p2 None have "NewDB env dsnArg options t
                        = (Return (None, Some (Wrap ''auto-creating database'' err)), t2)"
        by (simp add: NewDB_def Let_def)
      with n1 n2 show ?thesis by auto
    next
      case None
      with assms p1 p2 \<open>e1 = None\<close> have "NewDB env dsnArg options t = NewDB_connect env ?d dsnArg t2"
        by (simp add: NewDB_def Let_def)
      with n1 n2 have "NewDB env dsnArg options t = NewDB_connect env ?d dsnArg (t @ new1 @ new2)
            \<and> filter migrationWork (new1 @ new2) = [] \<and> Open Main dsnArg \<notin> set (new1 @ new2)"
        by simp
      then show ?thesis by blast
    qed
  qed
qed

lemma NewDB_result_configured:
  assumes "NewDB env dsnArg options t = (Return (Some d, eopt), t')"
    and "\<And>opt x. opt \<in> set options \<Longrightarrow> dsn (opt x) = dsn x"
  shows "db d = Some Main \<and> (\<exists>cfg. ParseDSN env (dsn d) = Inr cfg)"
proof (cases "ParseDSN env dsnArg")
  case (Inl err)
  with assms(1) show ?thesis by (simp add: NewDB_def)
next
  case (Inr cfg)
  from NewDB_parts [OF Inr, of options t] assms(1)
  obtain t2 where "NewDB_connect env (configure cfg dsnArg options) dsnArg t2 = (Return (Some d, eopt), t')"
    by auto
  from connect_result_handle [OF this] have "d = (configure cfg dsnArg options)\<lparr>db := Some Main\<rparr>" .
  moreover have "dsn (configure cfg dsnArg options) = dsnArg"
    by (rule configure_keeps_dsn) (rule assms(2))
  ultimately show ?thesis using Inr by simp
qed


lemma connect_no_migrations:
  assumes "migrationsDir d = []"
  shows "\<exists>new. snd (NewDB_connect env d dsnArg t) = t @ new \<and> filter migrationWork new = []"
  using assms unfolding NewDB_connect_def perform_def Let_def
  by (auto split: option.splits)

text \<open>
  Claim C9. Take a DB as \<open>NewDB\<close> returns it: its handle is the connection \<open>NewDB\<close>
  opened and its DSN is one that \<open>ParseDSN\<close> accepts (lemma \<open>NewDB_result_configured\<close>,
  for options that leave the DSN alone, as the four options of the package do). \<open>Close\<close>
  closes the handle first. The administrative drop, that is the call of
  \<open>dropExistingDatabaseIfExist\<close> on the DSN with no database selected, which begins by
  opening the administrative connection, is made exactly when drop-on-close is set and
  closing the handle succeeded, and its result is then the result of \<open>Close\<close>. When
  closing the handle fails, \<open>Close\<close> returns that failure and makes no other call. When
  drop-on-close is not set, closing the handle is the only call. Inside the
  administrative drop, the \<open>DROP DATABASE\<close> statement reaches the server when the
  administrative connection opens and answers the ping.
\<close>

theorem close_drops_after_successful_close:
  assumes "db d = Some Main" and "ParseDSN env (dsn d) = Inr cfg"
  shows "(Open Admin (FormatDSN env (cfg\<lparr>DBName := []\<rparr>)) \<in> set (drop (length t) (snd (DB_Close env d t)))
          \<longleftrightarrow> dropOnClose d \<and> outcome env t (Close Main) = None)
    \<and> (dropOnClose d \<and> outcome env t (Close Main) = None
        \<longrightarrow> DB_Close env d t
            = (Return (fst (dropExistingDatabaseIfExist env (FormatDSN env (cfg\<lparr>DBName := []\<rparr>))
                              (name d) (t @ [Close Main]))),
               snd (dropExistingDatabaseIfExist env (FormatDSN env (cfg\<lparr>DBName := []\<rparr>))
                      (name d) (t @ [Close Main]))))
    \<and> (\<forall>err. outcome env t (Close Main) = Some err
          \<longrightarrow> DB_Close env d t = (Return (Some (Wrap ''closing database'' err)), t @ [Close Main]))
    \<and> (\<not> dropOnClose d \<longrightarrow> snd (DB_Close env d t) = t @ [Close Main])
    \<and> (Exec Admin (''DROP DATABASE IF EXISTS '' @ name d @ '';'') []
          \<in> set (drop (length t) (snd (DB_Close env d t)))
        \<longleftrightarrow> dropOnClose d \<and> outcome env t (Close Main) = None
            \<and> outcome env (t @ [Close Main]) (Open Admin (FormatDSN env (cfg\<lparr>DBName := []\<rparr>))) = None
            \<and> outcome env (t @ [Close Main, Open Admin (FormatDSN env (cfg\<lparr>DBName := []\<rparr>))])
                 (Ping Admin) = None)"
proof -
  let ?a = "FormatDSN env (cfg\<lparr>DBName := []\<rparr>)"
  let ?drop = "dropExistingDatabaseIfExist env ?a (name d) (t @ [Close Main])"
  have failed: "DB_Close env d t = (Return (Some (Wrap ''closing database'' err)), t @ [Close Main])"
    if "outcome env t (Close Main) = Some err" for err
    using that assms by (simp add: DB_Close_def perform_def)
  have unset: "DB_Close env d t = (Return None, t @ [Close Main])"
    if "outcome env t (Close Main) = None" "\<not> dropOnClose d"
    using that assms by (simp add: DB_Close_def perform_def)
  have dropped: "DB_Close env d t = (Return (fst ?drop), snd ?drop)"
    if "outcome env t (Close Main) = None" "dropOnClose d"
    using that assms by (simp add: DB_Close_def perform_def split_beta)
  obtain rest where rest: "snd ?drop = (t @ [Close Main]) @ Open Admin ?a # rest"
    using dropExisting_first_call [of env ?a "name d" "t @ [Close Main]"] by blast
  have stmt: "Exec Admin (''DROP DATABASE IF EXISTS '' @ name d @ '';'') []
                \<in> set (drop (length (t @ [Close Main])) (snd ?drop))
              \<longleftrightarrow> outcome env (t @ [Close Main]) (Open Admin ?a) = None
                  \<and> outcome env ((t @ [Close Main]) @ [Open Admin ?a]) (Ping Admin) = None"
    by (rule dropExisting_statement)
  show ?thesis
  proof (cases "outcome env t (Close Main)")
    case (Some err)
    with failed [OF Some] show ?thesis by simp
  next
    case None
    show ?thesis
    proof (cases "dropOnClose d")
      case False
      with unset [OF None False] None show ?thesis by simp
    next
      case True
      have "drop (length t) (snd ?drop) = Close Main # drop (length (t @ [Close Main])) (snd ?drop)"
        unfolding rest by simp
      with dropped [OF None True] None True rest stmt show ?thesis by simp
    qed
  qed
qed

theorem close_drops_after_successful_close_witness:
  "db sampleDB = Some Main
   \<and> ParseDSN quiet (dsn sampleDB) = Inr \<lparr>DBName = ''app'', Others = ''root@/''\<rparr>
   \<and> DB_Close quiet sampleDB []
       = (Return None, [Close Main, Open Admin ''root@/'', Ping Admin,
                        Exec Admin ''DROP DATABASE IF EXISTS app;'' [], Close Admin])
   \<and> Open Admin (FormatDSN quiet (\<lparr>DBName = ''app'', Others = ''root@/''\<rparr>\<lparr>DBName := []\<rparr>))
       \<in> set (drop (length ([] :: call list)) (snd (DB_Close quiet sampleDB [])))
   \<and> outcome (refusing (Close Main)) [] (Close Main) = Some (Cause ''refused'')
   \<and> DB_Close (refusing (Close Main)) sampleDB []
       = (Return (Some (Wrap ''closing database'' (Cause ''refused''))), [] @ [Close Main])
   \<and> \<not> dropOnClose (sampleDB\<lparr>dropOnClose := False\<rparr>)
   \<and> snd (DB_Close quiet (sampleDB\<lparr>dropOnClose := False\<rparr>) []) = [] @ [Close Main]
   \<and> DB_Close quiet sampleDB []
       = (Return (fst (dropExistingDatabaseIfExist quiet
                         (FormatDSN quiet (\<lparr>DBName = ''app'', Others = ''root@/''\<rparr>\<lparr>DBName := []\<rparr>))
                         (name sampleDB) ([] @ [Close Main]))),
          snd (dropExistingDatabaseIfExist quiet
                 (FormatDSN quiet (\<lparr>DBName = ''app'', Others = ''root@/''\<rparr>\<lparr>DBName := []\<rparr>))
                 (name sampleDB) ([] @ [Close Main])))
   \<and> Exec Admin (''DROP DATABASE IF EXISTS '' @ name sampleDB @ '';'') []
       \<in> set (drop (length ([] :: call list)) (snd (DB_Close quiet sampleDB [])))"
proof -
  let ?cfg = "\<lparr>DBName = ''app'', Others = ''root@/''\<rparr>"
  have a: "db sampleDB = Some Main" by (simp add: sampleDB_def)
  have b: "ParseDSN quiet (dsn sampleDB) = Inr ?cfg" by (simp add: sampleDB_def quiet_def)
  have b': "ParseDSN (refusing (Close Main)) (dsn sampleDB) = Inr ?cfg"
    by (simp add: sampleDB_def quiet_def refusing_def)
  have c: "DB_Close quiet sampleDB []
       = (Return None, [Close Main, Open Admin ''root@/'', Ping Admin,
                        Exec Admin ''DROP DATABASE IF EXISTS app;'' [], Close Admin])"
    by code_simp
  have d: "dropOnClose sampleDB \<and> outcome quiet [] (Close Main) = None"
    by (simp add: sampleDB_def quiet_def)
  note e = close_drops_after_successful_close [OF a b, of "[]", THEN conjunct1, THEN iffD2, OF d]
  have f: "outcome (refusing (Close Main)) [] (Close Main) = Some (Cause ''refused'')"
    by (simp add: refusing_def)
  note g = close_drops_after_successful_close [OF a b', of "[]", THEN conjunct2, THEN conjunct2,
             THEN conjunct1, THEN spec, THEN mp, OF f]
  have a2: "db (sampleDB\<lparr>dropOnClose := False\<rparr>) = Some Main" by (simp add: sampleDB_def)
  have b2: "ParseDSN quiet (dsn (sampleDB\<lparr>dropOnClose := False\<rparr>)) = Inr ?cfg"
    by (simp add: sampleDB_def quiet_def)
  have h: "\<not> dropOnClose (sampleDB\<lparr>dropOnClose := False\<rparr>)" by simp
  note i = close_drops_after_successful_close [OF a2 b2, of "[]", THEN conjunct2, THEN conjunct2,
             THEN conjunct2, THEN conjunct1, THEN mp, OF h]
  note j = close_drops_after_successful_close [OF a b, of "[]", THEN conjunct2, THEN conjunct1,
             THEN mp, OF d]
  have k: "dropOnClose sampleDB \<and> outcome quiet [] (Close Main) = None
            \<and> outcome quiet ([] @ [Close Main]) (Open Admin (FormatDSN quiet (?cfg\<lparr>DBName := []\<rparr>))) = None
            \<and> outcome quiet ([] @ [Close Main, Open Admin (FormatDSN quiet (?cfg\<lparr>DBName := []\<rparr>))])
                 (Ping Admin) = None"
    by (simp add: sampleDB_def quiet_def)
  note l = close_drops_after_successful_close [OF a b, of "[]", THEN conjunct2, THEN conjunct2,
             THEN conjunct2, THEN conjunct2, THEN iffD2, OF k]
  show ?thesis by (intro conjI a b c e f g h i j l)
qed

text \<open>
  Claim C10. \<open>NewDB\<close> returns either a DB and no error, or no DB and an error, never
  both and never neither. Once the DSN is parsed it either returns an error without
  having opened the connection, or goes on as lines 169 to 186 do on the configured DB.
  There, when the connection is opened and the ping fails, the connection is closed and
  the ping's error is returned with no DB; when the ping succeeds and the migration run
  returns an error, the connection is closed and that error is returned, wrapped, with
  no DB. When the configured migrations directory is the empty string, \<open>NewDB\<close> executes
  no statement and no query on the connection and reads nothing from the migration
  file system.
\<close>

theorem NewDB_closes_handle_on_failure:
  "(\<forall>dopt eopt t'. NewDB env dsnArg options t = (Return (dopt, eopt), t')
       \<longrightarrow> (dopt = None \<longleftrightarrow> eopt \<noteq> None))
   \<and> (\<forall>cfg. ParseDSN env dsnArg = Inr cfg
       \<longrightarrow> (\<exists>e new. NewDB env dsnArg options t = (Return (None, Some e), t @ new)
                \<and> Open Main dsnArg \<notin> set new)
           \<or> (\<exists>new. NewDB env dsnArg options t
                       = NewDB_connect env (configure cfg dsnArg options) dsnArg (t @ new)
                \<and> Open Main dsnArg \<notin> set new))
   \<and> (\<forall>err. outcome env t (Open Main dsnArg) = None
           \<and> outcome env (t @ [Open Main dsnArg]) (Ping Main) = Some err
       \<longrightarrow> NewDB_connect env d dsnArg t
           = (Return (None, Some err), t @ [Open Main dsnArg, Ping Main, Close Main]))
   \<and> (\<forall>err t3. outcome env t (Open Main dsnArg) = None
           \<and> outcome env (t @ [Open Main dsnArg]) (Ping Main) = None
           \<and> migrationsDir d \<noteq> []
           \<and> runMigrations env (d\<lparr>db := Some Main\<rparr>) (t @ [Open Main dsnArg, Ping Main])
               = (Return (Some err), t3)
       \<longrightarrow> NewDB_connect env d dsnArg t
           = (Return (None, Some (Wrap ''running migrations'' err)), t3 @ [Close Main]))
   \<and> (\<forall>cfg. ParseDSN env dsnArg = Inr cfg \<and> migrationsDir (configure cfg dsnArg options) = []
       \<longrightarrow> filter migrationWork (drop (length t) (snd (NewDB env dsnArg options t))) = [])"
proof (intro conjI allI impI)
  fix dopt eopt t'
  assume r: "NewDB env dsnArg options t = (Return (dopt, eopt), t')"
  show "dopt = None \<longleftrightarrow> eopt \<noteq> None"
  proof (cases "ParseDSN env dsnArg")
    case (Inl err)
    with r show ?thesis by (auto simp: NewDB_def)
  next
    case (Inr cfg)
    from NewDB_parts [OF Inr, of options t] r connect_never_both show ?thesis by fastforce
  qed
next
  fix cfg
  assume "ParseDSN env dsnArg = Inr cfg"
  from NewDB_parts [OF this, of options t]
  show "(\<exists>e new. NewDB env dsnArg options t = (Return (None, Some e), t @ new)
                \<and> Open Main dsnArg \<notin> set new)
        \<or> (\<exists>new. NewDB env dsnArg options t
                    = NewDB_connect env (configure cfg dsnArg options) dsnArg (t @ new)
                \<and> Open Main dsnArg \<notin> set new)"
    by blast
next
  fix err
  assume "outcome env t (Open Main dsnArg) = None
           \<and> outcome env (t @ [Open Main dsnArg]) (Ping Main) = Some err"
  then show "NewDB_connect env d dsnArg t
           = (Return (None, Some err), t @ [Open Main dsnArg, Ping Main, Close Main])"
    by (simp add: NewDB_connect_def perform_def)
next
  fix err t3
  assume "outcome env t (Open Main dsnArg) = None
           \<and> outcome env (t @ [Open Main dsnArg]) (Ping Main) = None
           \<and> migrationsDir d \<noteq> []
           \<and> runMigrations env (d\<lparr>db := Some Main\<rparr>) (t @ [Open Main dsnArg, Ping Main])
               = (Return (Some err), t3)"
  then show "NewDB_connect env d dsnArg t
           = (Return (None, Some (Wrap ''running migrations'' err)), t3 @ [Close Main])"
    by (simp add: NewDB_connect_def perform_def)
next
  fix cfg
  assume a: "ParseDSN env dsnArg = Inr cfg \<and> migrationsDir (configure cfg dsnArg options) = []"
  from NewDB_parts [of env dsnArg cfg options t] a
  consider e new where "NewDB env dsnArg options t = (Return (None, Some e), t @ new)"
      "filter migrationWork new = []"
    | new where "NewDB env dsnArg options t
                 = NewDB_connect env (configure cfg dsnArg options) dsnArg (t @ new)"
      "filter migrationWork new = []"
    by blast
  then show "filter migrationWork (drop (length t) (snd (NewDB env dsnArg options t))) = []"
  proof cases
    case 1
    then show ?thesis by simp
  next
    case 2
    from connect_no_migrations [of "configure cfg dsnArg options" env dsnArg "t @ new"] a
    obtain new' where "snd (NewDB_connect env (configure cfg dsnArg options) dsnArg (t @ new))
                       = (t @ new) @ new'" "filter migrationWork new' = []" by blast
    with 2 show ?thesis by simp
  qed
qed

theorem NewDB_closes_handle_on_failure_witness:
  "NewDB quiet ''root@/app'' [DropDBOnClose] []
     = (Return (Some (sampleDB\<lparr>migrationsDir := [], migrationsFS := None\<rparr>), None),
        [Open Main ''root@/app'', Ping Main])
   \<and> ((Some (sampleDB\<lparr>migrationsDir := [], migrationsFS := None\<rparr>) = None)
        \<longleftrightarrow> ((None :: error option) \<noteq> None))
   \<and> NewDB (refusing (Ping Main)) ''root@/app'' [DropDBOnClose] []
     = (Return (None, Some (Cause ''refused'')), [Open Main ''root@/app'', Ping Main, Close Main])
   \<and> (((None :: DB option) = None) \<longleftrightarrow> (Some (Cause ''refused'') \<noteq> None))
   \<and> outcome (refusing (Ping Main)) [] (Open Main ''root@/app'') = None
   \<and> outcome (refusing (Ping Main)) ([] @ [Open Main ''root@/app'']) (Ping Main) = Some (Cause ''refused'')
   \<and> NewDB_connect (refusing (Ping Main)) sampleDB ''root@/app'' []
     = (Return (None, Some (Cause ''refused'')), [] @ [Open Main ''root@/app'', Ping Main, Close Main])
   \<and> outcome (refusing (Exec Main createTable [])) [] (Open Main ''root@/app'') = None
   \<and> outcome (refusing (Exec Main createTable [])) ([] @ [Open Main ''root@/app'']) (Ping Main) = None
   \<and> migrationsDir sampleDB \<noteq> []
   \<and> runMigrations (refusing (Exec Main createTable [])) (sampleDB\<lparr>db := Some Main\<rparr>)
        ([] @ [Open Main ''root@/app'', Ping Main])
     = (Return (Some (Wrap ''creating migrations table'' (Cause ''refused''))),
        [Open Main ''root@/app'', Ping Main, Exec Main createTable []])
   \<and> NewDB_connect (refusing (Exec Main createTable [])) sampleDB ''root@/app'' []
     = (Return (None, Some (Wrap ''running migrations''
                             (Wrap ''creating migrations table'' (Cause ''refused'')))),
        [Open Main ''root@/app'', Ping Main, Exec Main createTable []] @ [Close Main])
   \<and> ParseDSN quiet ''root@/app'' = Inr \<lparr>DBName = ''app'', Others = ''root@/''\<rparr>
   \<and> migrationsDir (configure \<lparr>DBName = ''app'', Others = ''root@/''\<rparr> ''root@/app'' [DropDBOnClose]) = []
   \<and> filter migrationWork
        (drop (length ([] :: call list)) (snd (NewDB quiet ''root@/app'' [DropDBOnClose] []))) = []
   \<and> ((\<exists>e new. NewDB quiet ''root@/app'' [DropDBOnClose] [] = (Return (None, Some e), [] @ new)
          \<and> Open Main ''root@/app'' \<notin> set new)
       \<or> (\<exists>new. NewDB quiet ''root@/app'' [DropDBOnClose] []
                  = NewDB_connect quiet
                      (configure \<lparr>DBName = ''app'', Others = ''root@/''\<rparr> ''root@/app'' [DropDBOnClose])
                      ''root@/app'' ([] @ new)
          \<and> Open Main ''root@/app'' \<notin> set new))"
proof -
  let ?cfg = "\<lparr>DBName = ''app'', Others = ''root@/''\<rparr>"
  let ?p = "refusing (Ping Main)"
  let ?m = "refusing (Exec Main createTable [])"
  note plain = NewDB_closes_handle_on_failure
    [where env = quiet and dsnArg = "''root@/app''" and options = "[DropDBOnClose]" and t = "[]"
       and d = sampleDB]
  note noping = NewDB_closes_handle_on_failure
    [where env = ?p and dsnArg = "''root@/app''" and options = "[DropDBOnClose]" and t = "[]"
       and d = sampleDB]
  note nomig = NewDB_closes_handle_on_failure
    [where env = ?m and dsnArg = "''root@/app''" and options = "[DropDBOnClose]" and t = "[]"
       and d = sampleDB]
  have parse: "ParseDSN quiet ''root@/app'' = Inr ?cfg" by (simp add: quiet_def)
  have a: "NewDB quiet ''root@/app'' [DropDBOnClose] []
     = (Return (Some (sampleDB\<lparr>migrationsDir := [], migrationsFS := None\<rparr>), None),
        [Open Main ''root@/app'', Ping Main])"
    by (simp add: NewDB_def NewDB_connect_def configure_def DropDBOnClose_def perform_def
        sampleDB_def quiet_def)
  note a' = plain [THEN conjunct1, THEN spec, THEN spec, THEN spec, THEN mp, OF a]
  have b: "NewDB ?p ''root@/app'' [DropDBOnClose] []
     = (Return (None, Some (Cause ''refused'')), [Open Main ''root@/app'', Ping Main, Close Main])"
    by (simp add: NewDB_def NewDB_connect_def configure_def DropDBOnClose_def perform_def
        refusing_def quiet_def)
  note b' = noping [THEN conjunct1, THEN spec, THEN spec, THEN spec, THEN mp, OF b]
  have c1: "outcome ?p [] (Open Main ''root@/app'') = None" by (simp add: refusing_def)
  have c2: "outcome ?p ([] @ [Open Main ''root@/app'']) (Ping Main) = Some (Cause ''refused'')"
    by (simp add: refusing_def)
  note c = noping [THEN conjunct2, THEN conjunct2, THEN conjunct1, THEN spec, THEN mp,
                   OF conjI [OF c1 c2]]
  have d1: "outcome ?m [] (Open Main ''root@/app'') = None" by (simp add: refusing_def)
  have d2: "outcome ?m ([] @ [Open Main ''root@/app'']) (Ping Main) = None"
    by (simp add: refusing_def)
  have d3: "migrationsDir sampleDB \<noteq> []" by (simp add: sampleDB_def)
  have d4: "runMigrations ?m (sampleDB\<lparr>db := Some Main\<rparr>) ([] @ [Open Main ''root@/app'', Ping Main])
     = (Return (Some (Wrap ''creating migrations table'' (Cause ''refused''))),
        [Open Main ''root@/app'', Ping Main, Exec Main createTable []])"
    by (simp add: runMigrations_def perform_def refusing_def)
  note d = nomig [THEN conjunct2, THEN conjunct2, THEN conjunct2, THEN conjunct1, THEN spec,
                  THEN spec, THEN mp, OF conjI [OF d1 conjI [OF d2 conjI [OF d3 d4]]]]
  have e1: "migrationsDir (configure ?cfg ''root@/app'' [DropDBOnClose]) = []"
    by (simp add: configure_def DropDBOnClose_def)
  note e = plain [THEN conjunct2, THEN conjunct2, THEN conjunct2, THEN conjunct2, THEN spec,
                  THEN mp, OF conjI [OF parse e1]]
  note f = plain [THEN conjunct2, THEN conjunct1, THEN spec, THEN mp, OF parse]
  show ?thesis by (intro conjI a a' b b' c1 c2 c d1 d2 d3 d4 d parse e1 e f)
qed


end
